theory Spec2Isabelle
  imports Main "HOL-Library.Word" "HOL-Library.Sublist"
begin

section \<open>The directory analysis engine of codebase-digest\<close>

text \<open>
  A shallow embedding of \<^verbatim>\<open>src/codebase_digest/app.py\<close>: the ignore-rule matcher
  \<^verbatim>\<open>should_ignore\<close>, the text classifier \<^verbatim>\<open>is_text_file\<close>, the definition
  extractor \<^verbatim>\<open>extract_classes_and_functions\<close> and the recursive tree builder
  \<^verbatim>\<open>analyze_directory\<close>.

  Python strings are lists of \<^typ>\<open>char\<close>, file contents are lists of bytes, sizes and
  counts are natural numbers (they are lengths and sums of lengths), the depth arguments
  are integers (\<^verbatim>\<open>--max-depth\<close> accepts a negative number).
\<close>

subsection \<open>The file system and the library functions the program calls\<close>

type_synonym byte = "8 word"

text \<open>
  What the traversal can see of the file system under a directory: a regular file with
  its bytes (and whether \<^verbatim>\<open>open\<close> succeeds on it), a subdirectory, or an entry that is
  neither (\<^verbatim>\<open>os.path.isfile\<close> and \<^verbatim>\<open>os.path.isdir\<close> both false). A directory is its
  listing in the order \<^verbatim>\<open>os.listdir\<close> returns it, or \<open>Denied\<close> when \<^verbatim>\<open>os.listdir\<close>
  raises \<^verbatim>\<open>PermissionError\<close>. The tree is finite: a cycle of symbolic links is outside
  the model.
\<close>

datatype entry = File bool "byte list" | Subdir dir | Other
  and dir = Dir "(string \<times> entry) list" | Denied

text \<open>
  The functions of Python's library and of \<^verbatim>\<open>tiktoken\<close> that the program calls and
  whose code is not part of the repository are parameters of the model:
  \<^item> \<open>fnmatch name pat\<close> is \<^verbatim>\<open>fnmatch.fnmatch(name, pat)\<close>;
  \<^item> \<open>getcwd\<close> is the working directory \<^verbatim>\<open>os.path.abspath\<close> resolves against;
  \<^item> \<open>read_text bs\<close> is what \<^verbatim>\<open>open(p, 'r', encoding='utf-8', errors='ignore').read()\<close>
    returns for a file with bytes \<open>bs\<close>;
  \<^item> \<open>strerror\<close> is the text of the exception \<^verbatim>\<open>read_file_content\<close> reports;
  \<^item> \<open>encode text\<close> is the number of tokens \<^verbatim>\<open>enc.encode(text, disallowed_special=())\<close>
    returns, \<open>None\<close> when it raises (\<^verbatim>\<open>tiktoken.get_encoding\<close> itself is taken to
    succeed);
  \<^item> \<open>class_pattern_finditer content\<close> and \<open>function_pattern_finditer content\<close> are
    the texts \<^verbatim>\<open>match.group(0)\<close> of the successive matches of the two compiled regular
    expressions of \<^verbatim>\<open>extract_classes_and_functions\<close>.
\<close>

record env =
  fnmatch :: "string \<Rightarrow> string \<Rightarrow> bool"
  getcwd :: string
  read_text :: "byte list \<Rightarrow> string"
  strerror :: string
  encode :: "string \<Rightarrow> nat option"
  class_pattern_finditer :: "string \<Rightarrow> string list"
  function_pattern_finditer :: "string \<Rightarrow> string list"

datatype exn = ValueError

subsection \<open>\<^verbatim>\<open>posixpath\<close>\<close>

definition sep :: char where
  "sep = CHR ''/''"

text \<open>\<^verbatim>\<open>s.split(sep)\<close>: one piece more than there are separators.\<close>

fun split_sep :: "string \<Rightarrow> string list" where
  "split_sep [] = [[]]"
| "split_sep (c # cs) =
     (if c = sep then [] # split_sep cs
      else (c # hd (split_sep cs)) # tl (split_sep cs))"

definition startswith_sep :: "string \<Rightarrow> bool" where
  "startswith_sep p = (case p of [] \<Rightarrow> False | c # _ \<Rightarrow> c = sep)"

definition endswith_sep :: "string \<Rightarrow> bool" where
  "endswith_sep p = (p \<noteq> [] \<and> last p = sep)"

text \<open>\<^verbatim>\<open>os.path.basename(p)\<close>: what follows the last separator.\<close>

definition basename :: "string \<Rightarrow> string" where
  "basename p = rev (takeWhile (\<lambda>c. c \<noteq> sep) (rev p))"

text \<open>\<^verbatim>\<open>os.path.join(a, b)\<close> and \<^verbatim>\<open>os.path.join(*parts)\<close>.\<close>

definition join :: "string \<Rightarrow> string \<Rightarrow> string" where
  "join a b =
     (if startswith_sep b then b
      else if a = [] \<or> endswith_sep a then a @ b
      else a @ [sep] @ b)"

definition join_all :: "string list \<Rightarrow> string" where
  "join_all parts = foldl join (hd parts) (tl parts)"

text \<open>
  \<^verbatim>\<open>os.path.normpath\<close>: the loop over the components keeps \<^verbatim>\<open>new_comps\<close>; a path that
  starts with exactly two slashes keeps both.
\<close>

definition initial_slashes :: "string \<Rightarrow> nat" where
  "initial_slashes path =
     (if \<not> startswith_sep path then 0
      else if prefix [sep, sep] path \<and> \<not> prefix [sep, sep, sep] path then 2
      else 1)"

fun normpath_comps :: "nat \<Rightarrow> string list \<Rightarrow> string list \<Rightarrow> string list" where
  "normpath_comps ini [] new_comps = new_comps"
| "normpath_comps ini (cmp # comps) new_comps =
     (if cmp = [] \<or> cmp = ''.'' then normpath_comps ini comps new_comps
      else if cmp \<noteq> ''..'' \<or> (ini = 0 \<and> new_comps = [])
                \<or> (new_comps \<noteq> [] \<and> last new_comps = ''..'')
        then normpath_comps ini comps (new_comps @ [cmp])
      else if new_comps \<noteq> [] then normpath_comps ini comps (butlast new_comps)
      else normpath_comps ini comps new_comps)"

fun join_sep :: "string list \<Rightarrow> string" where
  "join_sep [] = []"
| "join_sep [c] = c"
| "join_sep (c # cs) = c @ [sep] @ join_sep cs"

definition normpath :: "string \<Rightarrow> string" where
  "normpath path =
     (if path = [] then ''.''
      else let ini = initial_slashes path;
               comps = normpath_comps ini (split_sep path) [];
               path' = replicate ini sep @ join_sep comps
           in if path' = [] then ''.'' else path')"

definition abspath :: "env \<Rightarrow> string \<Rightarrow> string" where
  "abspath e path =
     normpath (if \<not> startswith_sep path then join (getcwd e) path else path)"

text \<open>\<^verbatim>\<open>os.path.commonprefix\<close> on two lists of components.\<close>

fun commonprefix :: "string list \<Rightarrow> string list \<Rightarrow> string list" where
  "commonprefix (x # xs) (y # ys) = (if x = y then x # commonprefix xs ys else [])"
| "commonprefix _ _ = []"

text \<open>\<^verbatim>\<open>os.path.relpath(path, start)\<close> raises \<^verbatim>\<open>ValueError\<close> on the empty path.\<close>

definition relpath :: "env \<Rightarrow> string \<Rightarrow> string \<Rightarrow> exn + string" where
  "relpath e path start =
     (if path = [] then Inl ValueError
      else let start_list = filter (\<lambda>x. x \<noteq> []) (split_sep (abspath e start));
               path_list = filter (\<lambda>x. x \<noteq> []) (split_sep (abspath e path));
               i = length (commonprefix start_list path_list);
               rel_list = replicate (length start_list - i) ''..'' @ drop i path_list
           in if rel_list = [] then Inr ''.'' else Inr (join_all rel_list))"

subsection \<open>\<^verbatim>\<open>should_ignore\<close>\<close>

text \<open>
  The test of one pattern (the condition of the \<^verbatim>\<open>if\<close> in the loop), the loop with its
  early \<^verbatim>\<open>return True\<close>, and the function: the three path forms are computed before the
  loop, so the \<^verbatim>\<open>ValueError\<close> of \<^verbatim>\<open>os.path.relpath\<close> leaves the function whatever the
  patterns are.
\<close>

definition pattern_hits :: "env \<Rightarrow> string \<Rightarrow> string \<Rightarrow> string \<Rightarrow> string \<Rightarrow> string \<Rightarrow> bool" where
  "pattern_hits e name rel_path abs_path base_path pattern =
     (fnmatch e name pattern \<or>
      fnmatch e rel_path pattern \<or>
      fnmatch e abs_path pattern \<or>
      (startswith_sep pattern \<and> fnmatch e abs_path (join base_path (tl pattern))) \<or>
      list_ex (\<lambda>part. fnmatch e part pattern) (split_sep rel_path))"

fun ignore_loop :: "env \<Rightarrow> string \<Rightarrow> string \<Rightarrow> string \<Rightarrow> string \<Rightarrow> string list \<Rightarrow> bool" where
  "ignore_loop e name rel_path abs_path base_path [] = False"
| "ignore_loop e name rel_path abs_path base_path (pattern # patterns) =
     (if pattern_hits e name rel_path abs_path base_path pattern then True
      else ignore_loop e name rel_path abs_path base_path patterns)"

definition should_ignore :: "env \<Rightarrow> string \<Rightarrow> string \<Rightarrow> string list \<Rightarrow> exn + bool" where
  "should_ignore e path base_path ignore_patterns =
     (let name = basename path in
      case relpath e path base_path of
        Inl err \<Rightarrow> Inl err
      | Inr rel_path \<Rightarrow>
          let abs_path = abspath e path
          in Inr (ignore_loop e name rel_path abs_path base_path ignore_patterns))"

subsection \<open>\<^verbatim>\<open>is_text_file\<close>\<close>

datatype ioerror = IOError

text \<open>
  \<^verbatim>\<open>open(file_path, 'rb')\<close> followed by \<^verbatim>\<open>file.read(1024)\<close>: an \<^verbatim>\<open>IOError\<close> for
  an unreadable file, a directory or a missing target, else the first 1024 bytes.
\<close>

fun read_chunk :: "entry \<Rightarrow> nat \<Rightarrow> ioerror + byte list" where
  "read_chunk (File readable bs) n = (if readable then Inr (take n bs) else Inl IOError)"
| "read_chunk (Subdir d) n = Inl IOError"
| "read_chunk Other n = Inl IOError"

text \<open>\<^verbatim>\<open>bytes([7, 8, 9, 10, 12, 13, 27] + list(range(0x20, 0x100)))\<close>\<close>

definition text_characters :: "byte list" where
  "text_characters = [7, 8, 9, 10, 12, 13, 27] @ map of_nat [0x20 ..< 0x100]"

text \<open>\<^verbatim>\<open>chunk.translate(None, delete)\<close> removes the bytes listed in \<open>delete\<close>.\<close>

definition translate_delete :: "byte list \<Rightarrow> byte list \<Rightarrow> byte list" where
  "translate_delete chunk delete = filter (\<lambda>b. b \<notin> set delete) chunk"

definition is_text_file :: "entry \<Rightarrow> bool" where
  "is_text_file file_path =
     (case read_chunk file_path 1024 of
        Inr chunk \<Rightarrow> \<not> (translate_delete chunk text_characters \<noteq> [])
      | Inl IOError \<Rightarrow> False)"

subsection \<open>\<^verbatim>\<open>count_tokens\<close> and \<^verbatim>\<open>read_file_content\<close>\<close>

definition count_tokens :: "env \<Rightarrow> string \<Rightarrow> nat" where
  "count_tokens e text = (case encode e text of Some n \<Rightarrow> n | None \<Rightarrow> 0)"

fun read_file_content :: "env \<Rightarrow> entry \<Rightarrow> string" where
  "read_file_content e (File readable bs) =
     (if readable then read_text e bs else ''Error reading file: '' @ strerror e)"
| "read_file_content e (Subdir d) = ''Error reading file: '' @ strerror e"
| "read_file_content e Other = ''Error reading file: '' @ strerror e"

subsection \<open>\<^verbatim>\<open>extract_classes_and_functions\<close>\<close>

text \<open>\<^verbatim>\<open>pattern in text\<close>: the pattern occurs as a contiguous piece of the text.\<close>

fun str_in :: "string \<Rightarrow> string \<Rightarrow> bool" where
  "str_in pattern [] = (pattern = [])"
| "str_in pattern (c # cs) = (prefix pattern (c # cs) \<or> str_in pattern cs)"

text \<open>
  Each of the two \<^verbatim>\<open>for\<close> loops appends the matches that contain one of the filter
  patterns, each followed by two newlines, to \<^verbatim>\<open>extracted_content\<close>.
\<close>

fun extract_loop :: "string list \<Rightarrow> string list \<Rightarrow> string \<Rightarrow> string" where
  "extract_loop filter_patterns [] extracted_content = extracted_content"
| "extract_loop filter_patterns (def # defs) extracted_content =
     extract_loop filter_patterns defs
       (if list_ex (\<lambda>pattern. str_in pattern def) filter_patterns
        then extracted_content @ def @ [CHR 0x0A, CHR 0x0A]
        else extracted_content)"

definition extract_classes_and_functions :: "env \<Rightarrow> string \<Rightarrow> string list \<Rightarrow> string" where
  "extract_classes_and_functions e content filter_patterns =
     extract_loop filter_patterns (function_pattern_finditer e content)
       (extract_loop filter_patterns (class_pattern_finditer e content) [])"

subsection \<open>The content filter of \<^verbatim>\<open>analyze_directory\<close>\<close>

text \<open>Python's truth value of \<^verbatim>\<open>filter_patterns\<close>: \<^verbatim>\<open>None\<close> and the empty list are false.\<close>

fun truthy :: "string list option \<Rightarrow> bool" where
  "truthy None = False"
| "truthy (Some patterns) = (patterns \<noteq> [])"

text \<open>
  Lines 174 to 185: what becomes of the content of a text file, \<open>None\<close> where the loop
  body leaves with \<^verbatim>\<open>continue\<close>.
\<close>

definition filter_content :: "env \<Rightarrow> string \<Rightarrow> string list option \<Rightarrow> bool \<Rightarrow> string option" where
  "filter_content e content filter_patterns extract_definitions =
     (if truthy filter_patterns then
        (let matches_filter = list_all (\<lambda>pattern. str_in pattern content) (the filter_patterns)
         in if \<not> matches_filter then None
            else if extract_definitions then
              (let content' = extract_classes_and_functions e content (the filter_patterns)
               in if content' = [] then None else Some content')
            else Some content)
      else Some content)"

subsection \<open>The tree model\<close>

text \<open>
  The two dictionaries \<^verbatim>\<open>analyze_directory\<close> builds. A directory dictionary gets its
  \<^verbatim>\<open>is_ignored\<close> key from the parent that lists it, so the root has none
  (\<open>is_ignored_key = None\<close>); readers use \<^verbatim>\<open>node.get("is_ignored", False)\<close>.
\<close>

datatype node =
    FileNode (name: string) (size_bytes: nat) (tokens: nat) (content: string)
      (is_ignored: bool)
  | DirNode (name: string) (size_bytes: nat) (children: "node list") (total_tokens: nat)
      (file_count: nat) (dir_count: nat) (text_content_size: nat) (total_text_size: nat)
      (is_ignored_key: "bool option")

fun get_is_ignored :: "node \<Rightarrow> bool" where
  "get_is_ignored (FileNode n s t c ig) = ig"
| "get_is_ignored (DirNode n s ch tt fc dc tcs tts key) =
     (case key of Some ig \<Rightarrow> ig | None \<Rightarrow> False)"

subsection \<open>\<^verbatim>\<open>analyze_directory\<close>\<close>

fun isfile :: "entry \<Rightarrow> bool" where
  "isfile (File readable bs) = True"
| "isfile (Subdir d) = False"
| "isfile Other = False"

text \<open>\<^verbatim>\<open>os.path.getsize\<close>, called on regular files only.\<close>

fun getsize :: "entry \<Rightarrow> nat" where
  "getsize (File readable bs) = length bs"
| "getsize (Subdir d) = 0"
| "getsize Other = 0"

text \<open>
  Lines 169 to 209: the child dictionary of a file together with \<^verbatim>\<open>is_text\<close>, \<open>None\<close>
  where the file is skipped. The selectors of \<^typ>\<open>node\<close> carry the dictionary keys, so
  the local variable \<^verbatim>\<open>is_ignored\<close> is written \<open>ignored\<close> from here on.
\<close>

definition file_child :: "env \<Rightarrow> string \<Rightarrow> entry \<Rightarrow> bool \<Rightarrow> string list option \<Rightarrow> bool \<Rightarrow> (node \<times> bool) option" where
  "file_child e item ent ignored filter_patterns extract_definitions =
     (let file_size = getsize ent;
          is_text = is_text_file ent
      in if is_text then
           (case filter_content e (read_file_content e ent) filter_patterns extract_definitions of
              None \<Rightarrow> None
            | Some final_content \<Rightarrow>
                Some (FileNode item file_size (count_tokens e final_content) final_content
                        ignored, is_text))
         else Some (FileNode item file_size 0 ''[Non-text file]'' ignored, is_text))"

text \<open>Line 160: \<^verbatim>\<open>result["total_text_size"] += file_size\<close>.\<close>

fun add_total_text_size :: "node \<Rightarrow> nat \<Rightarrow> node" where
  "add_total_text_size (DirNode n s ch tt fc dc tcs tts key) file_size =
     DirNode n s ch tt fc dc tcs (tts + file_size) key"
| "add_total_text_size (FileNode n s t c ig) file_size = FileNode n s t c ig"

text \<open>Lines 210 to 216: the file child is appended and, unless ignored, counted.\<close>

fun add_file :: "node \<Rightarrow> node \<Rightarrow> bool \<Rightarrow> bool \<Rightarrow> node" where
  "add_file (DirNode n s ch tt fc dc tcs tts key) child ignored is_text =
     (if \<not> ignored
      then DirNode n (s + size_bytes child) (ch @ [child]) (tt + tokens child) (fc + 1) dc
             (if is_text then tcs + length (content child) else tcs) tts key
      else DirNode n s (ch @ [child]) tt fc dc tcs tts key)"
| "add_file (FileNode n s t c ig) child ignored is_text = FileNode n s t c ig"

text \<open>Lines 222 to 229: the subdirectory is tagged, appended and, unless ignored, summed.\<close>

fun set_is_ignored :: "node \<Rightarrow> bool \<Rightarrow> node" where
  "set_is_ignored (DirNode n s ch tt fc dc tcs tts key) ig =
     DirNode n s ch tt fc dc tcs tts (Some ig)"
| "set_is_ignored (FileNode n s t c ig') ig = FileNode n s t c ig"

fun add_subdir :: "node \<Rightarrow> node \<Rightarrow> bool \<Rightarrow> node" where
  "add_subdir (DirNode n s ch tt fc dc tcs tts key) subdir ignored =
     (let subdir' = set_is_ignored subdir ignored
      in if \<not> ignored
         then DirNode n (s + size_bytes subdir') (ch @ [subdir']) (tt + total_tokens subdir')
                (fc + file_count subdir') (dc + (1 + dir_count subdir'))
                (tcs + text_content_size subdir') tts key
         else DirNode n s (ch @ [subdir']) tt fc dc tcs tts key)"
| "add_subdir (FileNode n s t c ig) subdir ignored = FileNode n s t c ig"

text \<open>Line 221: \<^verbatim>\<open>subdir and subdir["children"]\<close>.\<close>

fun subdir_kept :: "node option \<Rightarrow> bool" where
  "subdir_kept None = False"
| "subdir_kept (Some subdir) = (children subdir \<noteq> [])"

text \<open>
  Lines 158 to 240, the body of the \<^verbatim>\<open>for\<close> loop after the ignore status is known:
  it takes and returns \<^verbatim>\<open>result\<close> and \<^verbatim>\<open>has_matching_files\<close>, and an early
  \<^verbatim>\<open>continue\<close> returns them as they are at that point. \<open>sub\<close> is the outcome of the
  recursive call of line 218; the body reads it for a subdirectory that is not ignored
  and nowhere else.
\<close>

definition loop_body :: "env \<Rightarrow> string \<Rightarrow> entry \<Rightarrow> bool \<Rightarrow> string list option \<Rightarrow> bool \<Rightarrow> exn + node option \<Rightarrow> node \<Rightarrow> bool \<Rightarrow> exn + node \<times> bool" where
  "loop_body e item ent ignored filter_patterns extract_definitions sub result
       has_matching_files =
     (let result1 = (if isfile ent \<and> is_text_file ent
                     then add_total_text_size result (getsize ent) else result)
      in if ignored then Inr (result1, has_matching_files)
         else
           (case ent of
              File readable bs \<Rightarrow>
                (case file_child e item ent ignored filter_patterns extract_definitions of
                   None \<Rightarrow> Inr (result1, has_matching_files)
                 | Some (child, is_text) \<Rightarrow>
                     Inr (add_file result1 child ignored is_text,
                          has_matching_files \<or> is_text))
            | Subdir d \<Rightarrow>
                (case sub of
                   Inl err \<Rightarrow> Inl err
                 | Inr subdir \<Rightarrow>
                     if subdir_kept subdir
                     then Inr (add_subdir result1 (the subdir) ignored,
                               has_matching_files \<or> \<not> ignored)
                     else Inr (result1, has_matching_files))
            | Other \<Rightarrow> Inr (result1, has_matching_files)))"

text \<open>
  The function and its \<^verbatim>\<open>for\<close> loop. A \<^verbatim>\<open>ValueError\<close> raised in the body leaves the
  function; the \<^verbatim>\<open>PermissionError\<close> of \<^verbatim>\<open>os.listdir\<close> is caught and leaves \<^verbatim>\<open>result\<close>
  as initialised. The recursive call is made for a subdirectory that passed the
  \<^verbatim>\<open>.git\<close> rule and is not ignored. The model is of calls with \<^verbatim>\<open>temp_dir\<close> unset: the
  staging copy writes outside the tree being read and does not feed back into the value
  returned. Console output is left out.
\<close>

fun analyze_directory :: "env \<Rightarrow> dir \<Rightarrow> string \<Rightarrow> string list \<Rightarrow> string \<Rightarrow> bool \<Rightarrow> int option \<Rightarrow> int \<Rightarrow> string list option \<Rightarrow> bool \<Rightarrow> exn + node option"
  and analyze_items :: "env \<Rightarrow> (string \<times> entry) list \<Rightarrow> string \<Rightarrow> string list \<Rightarrow> string \<Rightarrow> bool \<Rightarrow> int option \<Rightarrow> int \<Rightarrow> string list option \<Rightarrow> bool \<Rightarrow> node \<Rightarrow> bool \<Rightarrow> exn + node \<times> bool"
where
  "analyze_directory e (Dir items) path ignore_patterns base_path include_git max_depth
       current_depth filter_patterns extract_definitions =
     (if max_depth \<noteq> None \<and> current_depth > the max_depth then Inr None
      else
        (case analyze_items e items path ignore_patterns base_path include_git max_depth
                current_depth filter_patterns extract_definitions
                (DirNode (basename path) 0 [] 0 0 0 0 0 None) False of
           Inl err \<Rightarrow> Inl err
         | Inr (result, has_matching_files) \<Rightarrow>
             if \<not> has_matching_files then Inr None else Inr (Some result)))"
| "analyze_directory e Denied path ignore_patterns base_path include_git max_depth
       current_depth filter_patterns extract_definitions =
     (if max_depth \<noteq> None \<and> current_depth > the max_depth then Inr None
      else Inr None)"
| "analyze_items e [] path ignore_patterns base_path include_git max_depth current_depth
       filter_patterns extract_definitions result has_matching_files =
     Inr (result, has_matching_files)"
| "analyze_items e ((item, ent) # items) path ignore_patterns base_path include_git max_depth
       current_depth filter_patterns extract_definitions result has_matching_files =
     (let item_path = join path item in
      if item = ''.git'' \<and> \<not> include_git
      then analyze_items e items path ignore_patterns base_path include_git max_depth
             current_depth filter_patterns extract_definitions result has_matching_files
      else
        (case should_ignore e item_path base_path ignore_patterns of
           Inl err \<Rightarrow> Inl err
         | Inr ignored \<Rightarrow>
             (case loop_body e item ent ignored filter_patterns extract_definitions
                     (case ent of
                        Subdir d \<Rightarrow>
                          if ignored then Inr None
                          else analyze_directory e d item_path ignore_patterns base_path
                                 include_git max_depth (current_depth + 1) filter_patterns
                                 extract_definitions
                      | _ \<Rightarrow> Inr None)
                     result has_matching_files of
                Inl err \<Rightarrow> Inl err
              | Inr (result', has_matching_files') \<Rightarrow>
                  analyze_items e items path ignore_patterns base_path include_git max_depth
                    current_depth filter_patterns extract_definitions result'
                    has_matching_files')))"

subsection \<open>What the properties are stated with\<close>

text \<open>
  A listing as \<^verbatim>\<open>os.listdir\<close> gives it: no name occurs twice and no name has a
  separator in it, at any level.
\<close>

fun wf_dir :: "dir \<Rightarrow> bool"
  and wf_items :: "(string \<times> entry) list \<Rightarrow> bool"
where
  "wf_dir (Dir items) = wf_items items"
| "wf_dir Denied = True"
| "wf_items [] = True"
| "wf_items ((item, ent) # items) =
     (item \<notin> set (map fst items) \<and> sep \<notin> set item \<and>
      (case ent of Subdir d \<Rightarrow> wf_dir d | _ \<Rightarrow> True) \<and>
      wf_items items)"

fun entries_of :: "dir \<Rightarrow> (string \<times> entry) list" where
  "entries_of (Dir items) = items"
| "entries_of Denied = []"

text \<open>Lines 158 to 160 on their own: \<^verbatim>\<open>result\<close> after the text-size bookkeeping.\<close>

definition result1_of :: "entry \<Rightarrow> node \<Rightarrow> node" where
  "result1_of ent result =
     (if isfile ent \<and> is_text_file ent then add_total_text_size result (getsize ent)
      else result)"

text \<open>
  The aggregation invariant. What a child contributes to each aggregate of its parent:
  its size, its tokens, one file or the files below it, no directory or itself and the
  directories below it, and its text content size. A file dictionary has no
  \<^verbatim>\<open>text_content_size\<close> key and does not record whether the file is text; its share is
  the length of its content when the file it was built from is text, so the invariant
  reads the listing the node was built from.
\<close>

fun tokens_of :: "node \<Rightarrow> nat" where
  "tokens_of (FileNode n s t c ig) = t"
| "tokens_of (DirNode n s ch tt fc dc tcs tts key) = tt"

fun files_of :: "node \<Rightarrow> nat" where
  "files_of (FileNode n s t c ig) = 1"
| "files_of (DirNode n s ch tt fc dc tcs tts key) = fc"

fun dirs_of :: "node \<Rightarrow> nat" where
  "dirs_of (FileNode n s t c ig) = 0"
| "dirs_of (DirNode n s ch tt fc dc tcs tts key) = 1 + dc"

fun text_size_of :: "(string \<times> entry) list \<Rightarrow> node \<Rightarrow> nat" where
  "text_size_of items (FileNode n s t c ig) =
     (case map_of items n of
        Some ent \<Rightarrow> if is_text_file ent then length c else 0
      | None \<Rightarrow> 0)"
| "text_size_of items (DirNode n s ch tt fc dc tcs tts key) = tcs"

fun listing_of :: "(string \<times> entry) list \<Rightarrow> string \<Rightarrow> (string \<times> entry) list" where
  "listing_of items n =
     (case map_of items n of Some (Subdir (Dir sub_items)) \<Rightarrow> sub_items | _ \<Rightarrow> [])"

fun aggregates_ok :: "(string \<times> entry) list \<Rightarrow> node \<Rightarrow> bool" where
  "aggregates_ok items (FileNode n s t c ig) = True"
| "aggregates_ok items (DirNode n s ch tt fc dc tcs tts key) =
     (s = sum_list (map size_bytes (filter (\<lambda>c. \<not> get_is_ignored c) ch)) \<and>
      tt = sum_list (map tokens_of (filter (\<lambda>c. \<not> get_is_ignored c) ch)) \<and>
      fc = sum_list (map files_of (filter (\<lambda>c. \<not> get_is_ignored c) ch)) \<and>
      dc = sum_list (map dirs_of (filter (\<lambda>c. \<not> get_is_ignored c) ch)) \<and>
      tcs = sum_list (map (text_size_of items) (filter (\<lambda>c. \<not> get_is_ignored c) ch)) \<and>
      (\<forall>c \<in> set ch. aggregates_ok (listing_of items (name c)) c))"

text \<open>The pruning invariant: no directory node without children, at any level.\<close>

fun no_empty_dir :: "node \<Rightarrow> bool" where
  "no_empty_dir (FileNode n s t c ig) = True"
| "no_empty_dir (DirNode n s ch tt fc dc tcs tts key) =
     (ch \<noteq> [] \<and> (\<forall>c \<in> set ch. no_empty_dir c))"

text \<open>
  No node flagged as ignored, at any level; and the size of the text files a directory
  lists itself, those the \<^verbatim>\<open>.git\<close> rule skips left out.
\<close>

fun none_ignored :: "node \<Rightarrow> bool" where
  "none_ignored (FileNode n s t c ig) = (\<not> ig)"
| "none_ignored (DirNode n s ch tt fc dc tcs tts key) =
     (key \<noteq> Some True \<and> (\<forall>c \<in> set ch. none_ignored c))"

definition direct_text_size :: "bool \<Rightarrow> (string \<times> entry) list \<Rightarrow> nat" where
  "direct_text_size include_git items =
     sum_list (map (\<lambda>(item, ent). getsize ent)
       (filter (\<lambda>(item, ent). \<not> (item = ''.git'' \<and> \<not> include_git) \<and>
                  isfile ent \<and> is_text_file ent) items))"

text \<open>
  The paths the traversal meets: those \<^verbatim>\<open>should_ignore\<close> is called on (line 155), in
  the order of the calls. Where a \<^verbatim>\<open>ValueError\<close> ends the traversal early, the list
  goes on with the paths the loops had left.
\<close>

fun checked_paths :: "env \<Rightarrow> dir \<Rightarrow> string \<Rightarrow> string list \<Rightarrow> string \<Rightarrow> bool \<Rightarrow> int option \<Rightarrow> int \<Rightarrow> string list"
  and checked_items :: "env \<Rightarrow> (string \<times> entry) list \<Rightarrow> string \<Rightarrow> string list \<Rightarrow> string \<Rightarrow> bool \<Rightarrow> int option \<Rightarrow> int \<Rightarrow> string list"
where
  "checked_paths e (Dir items) path ignore_patterns base_path include_git max_depth
       current_depth =
     (if max_depth \<noteq> None \<and> current_depth > the max_depth then []
      else checked_items e items path ignore_patterns base_path include_git max_depth
             current_depth)"
| "checked_paths e Denied path ignore_patterns base_path include_git max_depth
       current_depth = []"
| "checked_items e [] path ignore_patterns base_path include_git max_depth current_depth = []"
| "checked_items e ((item, ent) # items) path ignore_patterns base_path include_git max_depth
       current_depth =
     (if item = ''.git'' \<and> \<not> include_git
      then checked_items e items path ignore_patterns base_path include_git max_depth
             current_depth
      else join path item #
           (case ent of
              Subdir d \<Rightarrow>
                if should_ignore e (join path item) base_path ignore_patterns = Inr False
                then checked_paths e d (join path item) ignore_patterns base_path include_git
                       max_depth (current_depth + 1)
                else []
            | _ \<Rightarrow> []) @
           checked_items e items path ignore_patterns base_path include_git max_depth
             current_depth)"

text \<open>
  The files of a subtree that are text, are not ignored themselves and pass the content
  filter, by their paths.
\<close>

definition passes_filter :: "env \<Rightarrow> entry \<Rightarrow> string list option \<Rightarrow> bool" where
  "passes_filter e ent filter_patterns =
     (\<not> truthy filter_patterns \<or>
      list_all (\<lambda>pattern. str_in pattern (read_file_content e ent)) (the filter_patterns))"

fun passing_files :: "env \<Rightarrow> dir \<Rightarrow> string \<Rightarrow> string list \<Rightarrow> string \<Rightarrow> string list option \<Rightarrow> string list"
  and passing_items :: "env \<Rightarrow> (string \<times> entry) list \<Rightarrow> string \<Rightarrow> string list \<Rightarrow> string \<Rightarrow> string list option \<Rightarrow> string list"
where
  "passing_files e (Dir items) path ignore_patterns base_path filter_patterns =
     passing_items e items path ignore_patterns base_path filter_patterns"
| "passing_files e Denied path ignore_patterns base_path filter_patterns = []"
| "passing_items e [] path ignore_patterns base_path filter_patterns = []"
| "passing_items e ((item, ent) # items) path ignore_patterns base_path filter_patterns =
     (case ent of
        File readable bs \<Rightarrow>
          if is_text_file ent \<and>
             should_ignore e (join path item) base_path ignore_patterns = Inr False \<and>
             passes_filter e ent filter_patterns
          then [join path item] else []
      | Subdir d \<Rightarrow>
          passing_files e d (join path item) ignore_patterns base_path filter_patterns
      | Other \<Rightarrow> []) @
     passing_items e items path ignore_patterns base_path filter_patterns"

subsection \<open>A concrete environment\<close>

text \<open>
  For running the model on concrete trees: a matcher for patterns made of \<^verbatim>\<open>*\<close>,
  \<^verbatim>\<open>?\<close> and literal characters (where \<^verbatim>\<open>fnmatch\<close> agrees with it), bytes read as
  Latin-1 characters, one token per character, and block finders that know two source
  texts.
\<close>

fun glob :: "string \<Rightarrow> string \<Rightarrow> bool" where
  "glob [] [] = True"
| "glob (c # cs) [] = False"
| "glob [] (p # ps) = (p = CHR ''*'' \<and> glob [] ps)"
| "glob (c # cs) (p # ps) =
     (if p = CHR ''*'' then glob (c # cs) ps \<or> glob cs (p # ps)
      else (p = CHR ''?'' \<or> p = c) \<and> glob cs ps)"

definition sample_source :: string where
  "sample_source =
     ''class A:'' @ [CHR 0x0A] @ ''    foo = 1'' @ [CHR 0x0A] @
     ''def g():'' @ [CHR 0x0A] @ ''    return qux''"

definition second_source :: string where
  "second_source =
     ''def k():'' @ [CHR 0x0A] @ ''    x = 1'' @ [CHR 0x0A] @ ''d = 2''"

definition sample_env :: env where
  "sample_env =
     \<lparr> fnmatch = glob,
       getcwd = ''/home/user'',
       read_text = map (\<lambda>b. char_of (unat b)),
       strerror = ''[Errno 13] Permission denied'',
       encode = (\<lambda>text. Some (length text)),
       class_pattern_finditer =
         (\<lambda>text. if text = sample_source
                 then [''class A:'' @ [CHR 0x0A] @ ''    foo = 1''] else []),
       function_pattern_finditer =
         (\<lambda>text. if text = sample_source
                 then [''def g():'' @ [CHR 0x0A] @ ''    return qux'']
                 else if text = second_source then [second_source] else []) \<rparr>"

definition bytes_of :: "string \<Rightarrow> byte list" where
  "bytes_of text = map (\<lambda>c. of_nat (of_char c)) text"

text \<open>
  The loop invariants of the two tree properties: what holds of \<^verbatim>\<open>result\<close> and
  \<^verbatim>\<open>has_matching_files\<close> before and after each run of the loop body.
\<close>

definition pruned_inv :: "node \<Rightarrow> bool \<Rightarrow> bool" where
  "pruned_inv r h \<longleftrightarrow>
     \<not> is_FileNode r \<and> (\<forall>c \<in> set (children r). no_empty_dir c) \<and> (h \<longrightarrow> children r \<noteq> [])"

definition aggregates_inv :: "(string \<times> entry) list \<Rightarrow> string \<Rightarrow> node \<Rightarrow> bool" where
  "aggregates_inv L path r \<longleftrightarrow>
     (wf_items L \<longrightarrow> \<not> is_FileNode r \<and> name r = basename path \<and> aggregates_ok L r)"

definition none_ignored_inv :: "node \<Rightarrow> bool" where
  "none_ignored_inv r \<longleftrightarrow> \<not> is_FileNode r \<and> none_ignored r"

text \<open>A project directory, the tree it is analysed to, and a directory of binary files.\<close>

definition sample_dir :: dir where
  "sample_dir =
     Dir [(''a.py'', File True (bytes_of ''print(1)'')),
          (''b.bin'', File True [0x00, 0x01]),
          (''sub'', Subdir (Dir [(''x.txt'', File True (bytes_of ''hello''))])),
          (''empty'', Subdir (Dir []))]"

definition sample_tree :: node where
  "sample_tree =
     DirNode ''proj'' 13
       [FileNode ''a.py'' 8 8 ''print(1)'' False,
        DirNode ''sub'' 5 [FileNode ''x.txt'' 5 5 ''hello'' False] 5 1 0 5 5 (Some False)]
       13 2 1 13 8 None"

definition binary_dir :: dir where
  "binary_dir =
     Dir [(''b.bin'', File True [0x00, 0x01]),
          (''img'', Subdir (Dir [(''c.png'', File True [0x89, 0x50, 0x00])]))]"

text \<open>Directories for the content filter and for definition extraction.\<close>

definition filter_dir :: dir where
  "filter_dir = Dir [(''a.py'', File True (bytes_of ''foo bar''))]"

definition spanning_pattern :: string where
  "spanning_pattern = [CHR ''1'', CHR 0x0A, CHR ''d'']"

definition extract_dir :: dir where
  "extract_dir =
     Dir [(''m.py'', File True (bytes_of sample_source)),
          (''n.py'', File True (bytes_of second_source))]"

definition extract_tree :: node where
  "extract_tree =
     DirNode ''proj'' 24
       [FileNode ''n.py'' 24 26 (second_source @ [CHR 0x0A, CHR 0x0A]) False]
       26 1 0 26 68 None"

section \<open>The text classifier\<close>

lemma text_range_set: "set (map of_nat [0x20 ..< 0x100] :: byte list) = {b. 0x20 \<le> b}"
proof (intro set_eqI iffI)
  fix b :: byte
  assume "b \<in> set (map of_nat [0x20 ..< 0x100])"
  then have "b \<in> of_nat ` {0x20 ..< 0x100}"
    by (simp only: set_map set_upt)
  then obtain n :: nat where n: "b = of_nat n" "32 \<le> n" "n < 256"
    by auto
  from n(3) have "unat (of_nat n :: byte) = n"
    by (simp add: unat_of_nat)
  with n show "b \<in> {b. 0x20 \<le> b}"
    by (simp add: word_le_nat_alt)
next
  fix b :: byte
  assume "b \<in> {b. 0x20 \<le> b}"
  then have lo: "32 \<le> unat b"
    by (simp add: word_le_nat_alt)
  have hi: "unat b < 256"
    using unsigned_less [of b, where ?'a = nat] by simp
  have "b = of_nat (unat b)"
    by simp
  with lo hi have "b \<in> of_nat ` {0x20 ..< 0x100}"
    by (intro image_eqI [where x = "unat b"]) simp_all
  then show "b \<in> set (map of_nat [0x20 ..< 0x100])"
    by (simp only: set_map set_upt)
qed

lemma text_characters_iff:
  "b \<in> set text_characters \<longleftrightarrow> b \<in> {7, 8, 9, 10, 12, 13, 27} \<or> 0x20 \<le> b"
proof -
  have "set text_characters = {7, 8, 9, 10, 12, 13, 27} \<union> {b. 0x20 \<le> b}"
    unfolding text_characters_def set_append text_range_set by simp
  then show ?thesis by blast
qed

lemma is_text_file_File:
  "is_text_file (File readable bs) =
     (readable \<and> (\<forall>b \<in> set (take 1024 bs). b \<in> {7, 8, 9, 10, 12, 13, 27} \<or> 0x20 \<le> b))"
  by (auto simp: is_text_file_def translate_delete_def filter_empty_conv text_characters_iff)

lemma is_text_file_not_File: "\<not> is_text_file (Subdir d)" "\<not> is_text_file Other"
  by (simp_all add: is_text_file_def)

text \<open>
  C4. \<^verbatim>\<open>is_text_file\<close> looks at no more than the first 1024 bytes of the file and
  answers true exactly when the file can be read and every byte of that sample is one of
  0x07, 0x08, 0x09, 0x0A, 0x0C, 0x0D, 0x1B or lies in 0x20 to 0xFF. So a sample with the
  byte 0x00 is binary, the empty file is text, and a read error gives false.
\<close>

theorem is_text_file_classification:
  "is_text_file (File readable bs) =
     (readable \<and>
      (\<forall>b \<in> set (take 1024 bs).
         b \<in> {0x07, 0x08, 0x09, 0x0A, 0x0C, 0x0D, 0x1B} \<or> (0x20 \<le> b \<and> b \<le> 0xFF))) \<and>
   (readable \<and> 0x00 \<in> set (take 1024 bs) \<longrightarrow> \<not> is_text_file (File readable bs)) \<and>
   is_text_file (File True []) \<and>
   (read_chunk ent 1024 = Inl IOError \<longrightarrow> \<not> is_text_file ent)"
proof (intro conjI)
  have top: "b \<le> 0xFF" for b :: byte
    using unsigned_less [of b, where ?'a = nat] by (simp add: word_le_nat_alt)
  show "is_text_file (File readable bs) =
     (readable \<and>
      (\<forall>b \<in> set (take 1024 bs).
         b \<in> {0x07, 0x08, 0x09, 0x0A, 0x0C, 0x0D, 0x1B} \<or> (0x20 \<le> b \<and> b \<le> 0xFF)))"
    by (simp add: is_text_file_File top)
  show "readable \<and> 0x00 \<in> set (take 1024 bs) \<longrightarrow> \<not> is_text_file (File readable bs)"
    unfolding is_text_file_File by (intro impI notI, elim conjE) (drule (1) bspec, simp)
  show "is_text_file (File True [])"
    by (simp add: is_text_file_File)
  show "read_chunk ent 1024 = Inl IOError \<longrightarrow> \<not> is_text_file ent"
    by (simp add: is_text_file_def)
qed

theorem is_text_file_classification_witness:
  "is_text_file (File True [0x41, 0x0A, 0xFF]) \<and>
   \<not> is_text_file (File True [0x41, 0x00]) \<and>
   is_text_file (File True (replicate 1024 0x41 @ [0x00])) \<and>
   \<not> is_text_file (File False [0x41])"
  using is_text_file_classification [of True "[0x41, 0x0A, 0xFF]" Other]
    is_text_file_classification [of True "[0x41, 0x00]" Other]
    is_text_file_classification [of True "replicate 1024 0x41 @ [0x00]" Other]
    is_text_file_classification [of False "[0x41]" "File False [0x41]"]
  by simp

section \<open>The ignore-rule matcher\<close>

lemma ignore_loop_iff:
  "ignore_loop e nm rel_path abs_path base_path patterns \<longleftrightarrow>
     (\<exists>pattern \<in> set patterns. pattern_hits e nm rel_path abs_path base_path pattern)"
  by (induction patterns) auto

lemma relpath_nonempty: "path \<noteq> [] \<Longrightarrow> \<exists>rel_path. relpath e path start = Inr rel_path"
  by (simp add: relpath_def Let_def)

lemma relpath_empty: "relpath e [] start = Inl ValueError"
  by (simp add: relpath_def)

lemma should_ignore_nonempty:
  "path \<noteq> [] \<Longrightarrow> \<exists>b. should_ignore e path base_path patterns = Inr b"
  using relpath_nonempty [of path e base_path]
  by (auto simp: should_ignore_def)

lemma should_ignore_set:
  "set patterns = set patterns' \<Longrightarrow>
     should_ignore e path base_path patterns = should_ignore e path base_path patterns'"
  by (auto simp: should_ignore_def ignore_loop_iff split: sum.splits)

lemma should_ignore_insert:
  "set patterns' = insert pattern (set patterns) \<Longrightarrow>
   should_ignore e path base_path [pattern] \<noteq> Inr True \<Longrightarrow>
     should_ignore e path base_path patterns' = should_ignore e path base_path patterns"
  by (auto simp: should_ignore_def ignore_loop_iff split: sum.splits)

text \<open>
  C7. On a path (a non-empty string) \<^verbatim>\<open>should_ignore\<close> returns, and returns true
  exactly when some pattern matches the basename, the path relative to the base, the
  absolute path or one segment of the relative path, or starts with a slash and, stripped
  of it and joined to the base, is matched by the absolute path. A true answer stays true
  when patterns are added.
\<close>

theorem should_ignore_matches:
  assumes "path \<noteq> []"
  shows "\<exists>rel_path. relpath e path base_path = Inr rel_path \<and>
     should_ignore e path base_path patterns =
       Inr (\<exists>pattern \<in> set patterns.
              fnmatch e (basename path) pattern \<or>
              fnmatch e rel_path pattern \<or>
              fnmatch e (abspath e path) pattern \<or>
              (\<exists>part \<in> set (split_sep rel_path). fnmatch e part pattern) \<or>
              (startswith_sep pattern \<and>
               fnmatch e (abspath e path) (join base_path (tl pattern)))) \<and>
     (\<forall>more. should_ignore e path base_path patterns = Inr True \<longrightarrow>
        set patterns \<subseteq> set more \<longrightarrow> should_ignore e path base_path more = Inr True)"
proof -
  from assms obtain rel_path where rel: "relpath e path base_path = Inr rel_path"
    using relpath_nonempty by blast
  have val: "should_ignore e path base_path ps =
      Inr (\<exists>pattern \<in> set ps.
              fnmatch e (basename path) pattern \<or>
              fnmatch e rel_path pattern \<or>
              fnmatch e (abspath e path) pattern \<or>
              (\<exists>part \<in> set (split_sep rel_path). fnmatch e part pattern) \<or>
              (startswith_sep pattern \<and>
               fnmatch e (abspath e path) (join base_path (tl pattern))))" for ps
    using rel by (auto simp: should_ignore_def Let_def ignore_loop_iff pattern_hits_def list_ex_iff)
  have mono: "should_ignore e path base_path more = Inr True"
    if "should_ignore e path base_path patterns = Inr True" "set patterns \<subseteq> set more" for more
    using that unfolding val by blast
  from rel val mono show ?thesis by blast
qed

theorem should_ignore_matches_witness:
  "''/proj/build/x.pyc'' \<noteq> [] \<and>
   should_ignore sample_env ''/proj/build/x.pyc'' ''/proj'' [''*.log'', ''build''] = Inr True \<and>
   should_ignore sample_env ''/proj/build/x.pyc'' ''/proj'' [''build'', ''*.tmp'', ''*.log''] = Inr True"
proof -
  have ne: "''/proj/build/x.pyc'' \<noteq> []"
    by simp
  have val: "should_ignore sample_env ''/proj/build/x.pyc'' ''/proj'' [''*.log'', ''build''] = Inr True"
    by code_simp
  from should_ignore_matches [OF ne, of sample_env "''/proj''" "[''*.log'', ''build'']"] val
  have "should_ignore sample_env ''/proj/build/x.pyc'' ''/proj'' [''build'', ''*.tmp'', ''*.log''] = Inr True"
    by auto
  with ne val show ?thesis by simp
qed

section \<open>The loop body, case by case\<close>

lemma join_nonempty: "path \<noteq> [] \<Longrightarrow> join path item \<noteq> []"
  by (auto simp: join_def startswith_sep_def split: list.splits)

lemma not_file_add_total_text_size:
  "\<not> is_FileNode r \<Longrightarrow> \<not> is_FileNode (add_total_text_size r n)"
  by (cases r) simp_all

lemma not_file_result1_of: "\<not> is_FileNode r \<Longrightarrow> \<not> is_FileNode (result1_of ent r)"
  by (simp add: result1_of_def not_file_add_total_text_size)

lemma not_file_add_file: "\<not> is_FileNode r \<Longrightarrow> \<not> is_FileNode (add_file r c ig tx)"
  by (cases r) simp_all

lemma not_file_add_subdir: "\<not> is_FileNode r \<Longrightarrow> \<not> is_FileNode (add_subdir r s ig)"
  by (cases r) (simp_all add: Let_def)

lemma children_add_total_text_size: "children (add_total_text_size r n) = children r"
  by (cases r) simp_all

lemma children_result1_of: "children (result1_of ent r) = children r"
  by (simp add: result1_of_def children_add_total_text_size)

lemma children_add_file:
  "\<not> is_FileNode r \<Longrightarrow> children (add_file r c ig tx) = children r @ [c]"
  by (cases r) simp_all

lemma children_add_subdir:
  "\<not> is_FileNode r \<Longrightarrow> children (add_subdir r s ig) = children r @ [set_is_ignored s ig]"
  by (cases r) (simp_all add: Let_def)

lemma file_child_Some:
  "file_child e item ent ig fp ex = Some (c, tx) \<Longrightarrow>
     is_FileNode c \<and> name c = item \<and> is_ignored c = ig \<and> tx = is_text_file ent \<and>
     size_bytes c = getsize ent"
  by (auto simp: file_child_def Let_def split: if_splits option.splits)

lemma loop_body_cases:
  assumes "loop_body e item ent ig fp ex sub r h = Inr (r', h')"
  obtains
    (skipped) "r' = result1_of ent r" "h' = h"
  | (file_added) c tx where "\<not> ig" "isfile ent" "file_child e item ent ig fp ex = Some (c, tx)"
      "r' = add_file (result1_of ent r) c ig tx" "h' = (h \<or> tx)"
  | (subdir_added) d s where "\<not> ig" "ent = Subdir d" "sub = Inr (Some s)" "children s \<noteq> []"
      "r' = add_subdir (result1_of ent r) s ig" "h' = True"
  using assms
  by (auto simp: loop_body_def result1_of_def Let_def
      split: if_splits entry.splits option.splits sum.splits prod.splits
      elim!: subdir_kept.elims)

lemma analyze_items_Cons:
  "analyze_items e ((item, ent) # items) path ign base git md cur fp ex r h =
     (if item = ''.git'' \<and> \<not> git
      then analyze_items e items path ign base git md cur fp ex r h
      else
        (case should_ignore e (join path item) base ign of
           Inl err \<Rightarrow> Inl err
         | Inr ig \<Rightarrow>
             (case loop_body e item ent ig fp ex
                     (case ent of
                        Subdir d \<Rightarrow>
                          if ig then Inr None
                          else analyze_directory e d (join path item) ign base git md (cur + 1)
                                 fp ex
                      | _ \<Rightarrow> Inr None) r h of
                Inl err \<Rightarrow> Inl err
              | Inr (r', h') \<Rightarrow> analyze_items e items path ign base git md cur fp ex r' h')))"
  by (simp add: Let_def)

lemma analyze_items_skip:
  "item = ''.git'' \<and> \<not> git \<Longrightarrow>
     analyze_items e ((item, ent) # items) path ign base git md cur fp ex r h =
     analyze_items e items path ign base git md cur fp ex r h"
  unfolding analyze_items_Cons by (rule if_P)

lemma analyze_items_step:
  "\<not> (item = ''.git'' \<and> \<not> git) \<Longrightarrow>
     analyze_items e ((item, ent) # items) path ign base git md cur fp ex r h =
       (case should_ignore e (join path item) base ign of
          Inl err \<Rightarrow> Inl err
        | Inr ig \<Rightarrow>
            (case loop_body e item ent ig fp ex
                    (case ent of
                       Subdir d \<Rightarrow>
                         if ig then Inr None
                         else analyze_directory e d (join path item) ign base git md (cur + 1)
                                fp ex
                     | _ \<Rightarrow> Inr None) r h of
               Inl err \<Rightarrow> Inl err
             | Inr (r', h') \<Rightarrow> analyze_items e items path ign base git md cur fp ex r' h'))"
  unfolding analyze_items_Cons by (rule if_not_P)

lemma analyze_directory_Dir:
  "analyze_directory e (Dir items) path ign base git md cur fp ex =
     (if md \<noteq> None \<and> cur > the md then Inr None
      else
        (case analyze_items e items path ign base git md cur fp ex
                (DirNode (basename path) 0 [] 0 0 0 0 0 None) False of
           Inl err \<Rightarrow> Inl err
         | Inr (r, h) \<Rightarrow> if h then Inr (Some r) else Inr None))"
  by (auto split: sum.splits)

lemma analyze_directory_Denied:
  "analyze_directory e Denied path ign base git md cur fp ex = Inr None"
  by simp

section \<open>A proof rule for the traversal\<close>

text \<open>
  An invariant \<open>I\<close> of the loop, relative to the listing \<open>L\<close> the loop runs over, that
  holds of the initial \<^verbatim>\<open>result\<close>, is kept by the loop body whenever the subdirectory
  results satisfy \<open>G\<close>, and gives \<open>G\<close> for the directory when \<^verbatim>\<open>has_matching_files\<close>
  is set, makes \<open>G\<close> hold of every tree returned.
\<close>

lemma analyze_invariant:
  assumes init: "\<And>items path. I items path (DirNode (basename path) 0 [] 0 0 0 0 0 None) False"
    and step: "\<And>L path item ent ig sub r h r' h'.
        (item, ent) \<in> set L \<Longrightarrow> I L path r h \<Longrightarrow>
        (\<And>d t. ent = Subdir d \<Longrightarrow> sub = Inr (Some t) \<Longrightarrow> G d (join path item) t) \<Longrightarrow>
        loop_body e item ent ig fp ex sub r h = Inr (r', h') \<Longrightarrow> I L path r' h'"
    and final: "\<And>items path r. I items path r True \<Longrightarrow> G (Dir items) path r"
  shows "analyze_directory e d path ign base git md cur fp ex = Inr (Some t) \<Longrightarrow> G d path t"
    and "set items \<subseteq> set L \<Longrightarrow> I L path r h \<Longrightarrow>
         analyze_items e items path ign base git md cur fp ex r h = Inr (r', h') \<Longrightarrow>
         I L path r' h'"
proof (induction d and items arbitrary: path cur t and path cur L r h r' h'
    rule: wf_dir_wf_items.induct)
  case (1 items)
  from "1.prems" obtain r where
    run: "analyze_items e items path ign base git md cur fp ex
            (DirNode (basename path) 0 [] 0 0 0 0 0 None) False = Inr (r, True)"
    and t: "t = r"
    by (auto simp: analyze_directory_Dir split: if_splits sum.splits prod.splits)
  have "I items path r True"
    using "1.IH" [OF subset_refl init run] .
  with t show ?case by (simp add: final)
next
  case 2
  then show ?case by simp
next
  case 3
  then show ?case by simp
next
  case (4 item ent items)
  show ?case
  proof (cases "item = ''.git'' \<and> \<not> git")
    case True
    with "4.prems" "4.IH"(2) [of L path r h cur r' h'] show ?thesis
      by (simp add: analyze_items_Cons)
  next
    case False
    define sub where "sub = (\<lambda>ig. case ent of
        Subdir d \<Rightarrow>
          if ig then Inr None
          else analyze_directory e d (join path item) ign base git md (cur + 1) fp ex
      | _ \<Rightarrow> Inr None)"
    from False "4.prems"(3) obtain ig r1 h1 where
      body: "loop_body e item ent ig fp ex (sub ig) r h = Inr (r1, h1)"
      and rest: "analyze_items e items path ign base git md cur fp ex r1 h1 = Inr (r', h')"
      unfolding analyze_items_Cons sub_def
      by (auto split: sum.splits prod.splits)
    have good: "G d (join path item) t" if "ent = Subdir d" "sub ig = Inr (Some t)" for d t
      using that "4.IH"(1) [of d "join path item" "cur + 1" t]
      by (auto simp: sub_def split: if_splits)
    have mem: "(item, ent) \<in> set L"
      using "4.prems"(1) by simp
    have "I L path r1 h1"
      using step [OF mem "4.prems"(2) good body] by simp
    moreover have "set items \<subseteq> set L"
      using "4.prems"(1) by simp
    ultimately show ?thesis
      using "4.IH"(2) rest by blast
  qed
qed

section \<open>Pruning\<close>

lemma no_empty_dir_set_is_ignored: "no_empty_dir (set_is_ignored s ig) = no_empty_dir s"
  by (cases s) simp_all

lemma no_empty_dir_file: "is_FileNode c \<Longrightarrow> no_empty_dir c"
  by (cases c) simp_all

lemma pruned_inv_step:
  assumes "pruned_inv r h"
    and "\<And>d t. ent = Subdir d \<Longrightarrow> sub = Inr (Some t) \<Longrightarrow> no_empty_dir t"
    and "loop_body e item ent ig fp ex sub r h = Inr (r', h')"
  shows "pruned_inv r' h'"
  using assms(3)
proof (cases rule: loop_body_cases)
  case skipped
  with assms(1) show ?thesis
    by (simp add: pruned_inv_def not_file_result1_of children_result1_of)
next
  case (file_added c tx)
  with assms(1) show ?thesis
    by (auto simp: pruned_inv_def not_file_result1_of children_result1_of not_file_add_file
        children_add_file no_empty_dir_file dest: file_child_Some)
next
  case (subdir_added d s)
  with assms(1) assms(2) [of d s] show ?thesis
    by (auto simp: pruned_inv_def not_file_result1_of children_result1_of not_file_add_subdir
        children_add_subdir no_empty_dir_set_is_ignored)
qed

lemma pruned_inv_final: "pruned_inv r True \<Longrightarrow> no_empty_dir r"
  by (cases r) (simp_all add: pruned_inv_def)

lemma analyze_directory_pruned:
  "analyze_directory e d path ign base git md cur fp ex = Inr (Some t) \<Longrightarrow> no_empty_dir t"
  by (rule analyze_invariant(1) [where I = "\<lambda>L p. pruned_inv" and G = "\<lambda>d p. no_empty_dir"])
    (auto simp: pruned_inv_def [of "DirNode _ _ _ _ _ _ _ _ _"] intro: pruned_inv_step pruned_inv_final)

lemma all_ignored_items:
  "\<forall>(item, ent) \<in> set items. should_ignore e (join path item) base ign = Inr True \<Longrightarrow>
     \<exists>r'. analyze_items e items path ign base git md cur fp ex r h = Inr (r', h)"
proof (induction items arbitrary: r)
  case Nil
  then show ?case by simp
next
  case (Cons x items)
  obtain item ent where x: "x = (item, ent)"
    by (cases x)
  have ig: "should_ignore e (join path item) base ign = Inr True"
    using Cons.prems x by simp
  have body: "loop_body e item ent True fp ex sub r h = Inr (result1_of ent r, h)" for sub
    by (simp add: loop_body_def result1_of_def)
  have rest: "\<exists>r'. analyze_items e items path ign base git md cur fp ex r0 h = Inr (r', h)" for r0
    using Cons.IH Cons.prems by simp
  show ?case
  proof (cases "item = ''.git'' \<and> \<not> git")
    case True
    with rest [of r] show ?thesis
      unfolding x analyze_items_Cons by simp
  next
    case False
    with rest [of "result1_of ent r"] show ?thesis
      unfolding x analyze_items_Cons by (auto simp: ig body)
  qed
qed

text \<open>
  C2. No directory node of a returned tree has an empty list of children, and a root
  whose entries are all ignored by the patterns gives \<^verbatim>\<open>None\<close>.
\<close>

theorem pruning_invariant:
  "(analyze_directory e d path ign base git md cur fp ex = Inr (Some t) \<longrightarrow> no_empty_dir t) \<and>
   ((\<forall>(item, ent) \<in> set items. should_ignore e (join path item) base ign = Inr True) \<longrightarrow>
      analyze_directory e (Dir items) path ign base git md cur fp ex = Inr None)"
proof (intro conjI impI)
  assume "analyze_directory e d path ign base git md cur fp ex = Inr (Some t)"
  then show "no_empty_dir t"
    by (rule analyze_directory_pruned)
next
  assume "\<forall>(item, ent) \<in> set items. should_ignore e (join path item) base ign = Inr True"
  from all_ignored_items [OF this]
  obtain r' where "analyze_items e items path ign base git md cur fp ex
      (DirNode (basename path) 0 [] 0 0 0 0 0 None) False = Inr (r', False)"
    by blast
  then show "analyze_directory e (Dir items) path ign base git md cur fp ex = Inr None"
    by (simp add: analyze_directory_Dir)
qed

section \<open>Aggregation\<close>

lemma basename_plain: "sep \<notin> set item \<Longrightarrow> basename item = item"
proof -
  assume "sep \<notin> set item"
  then have "takeWhile (\<lambda>c. c \<noteq> sep) (rev item) = rev item"
    by (intro takeWhile_eq_all_conv [THEN iffD2]) auto
  then have "rev (takeWhile (\<lambda>c. c \<noteq> sep) (rev item)) = rev (rev item)"
    by (rule arg_cong)
  then show ?thesis unfolding basename_def by (simp only: rev_rev_ident)
qed

lemma basename_append_sep: "sep \<notin> set item \<Longrightarrow> basename (xs @ sep # item) = item"
proof -
  assume "sep \<notin> set item"
  then have "takeWhile (\<lambda>c. c \<noteq> sep) (rev item @ sep # rev xs) =
      rev item @ takeWhile (\<lambda>c. c \<noteq> sep) (sep # rev xs)"
    by (intro takeWhile_append2) auto
  then show ?thesis by (simp add: basename_def)
qed

lemma basename_join: "sep \<notin> set item \<Longrightarrow> basename (join path item) = item"
proof -
  assume item: "sep \<notin> set item"
  then have ns: "\<not> startswith_sep item"
    by (auto simp: startswith_sep_def split: list.splits)
  show ?thesis
  proof (cases "path = []")
    case True
    with ns item show ?thesis by (simp add: join_def basename_plain)
  next
    case False
    show ?thesis
    proof (cases "endswith_sep path")
      case True
      with False have "path = butlast path @ [sep]"
        by (metis append_butlast_last_id endswith_sep_def)
      then have "path @ item = butlast path @ sep # item"
        by (metis append.assoc append_Cons append_Nil)
      then have "join path item = butlast path @ sep # item"
        using ns True by (simp add: join_def)
      with item show ?thesis by (simp add: basename_append_sep)
    next
      case no: False
      with False ns have "join path item = path @ sep # item"
        by (simp add: join_def)
      with item show ?thesis by (simp add: basename_append_sep)
    qed
  qed
qed

lemma wf_items_map_of:
  "wf_items L \<Longrightarrow> (item, ent) \<in> set L \<Longrightarrow> map_of L item = Some ent"
  by (induction L) (auto simp: rev_image_eqI)

lemma wf_items_member:
  "wf_items L \<Longrightarrow> (item, ent) \<in> set L \<Longrightarrow>
     sep \<notin> set item \<and> (\<forall>d. ent = Subdir d \<longrightarrow> wf_dir d)"
  by (induction L) auto

lemma aggregates_ok_add_total_text_size:
  "aggregates_ok L (add_total_text_size r n) = aggregates_ok L r"
  by (cases r) simp_all

lemma aggregates_ok_result1_of: "aggregates_ok L (result1_of ent r) = aggregates_ok L r"
  by (simp add: result1_of_def aggregates_ok_add_total_text_size)

lemma aggregates_ok_add_file:
  assumes "\<not> is_FileNode r" "aggregates_ok L r" "is_FileNode c" "is_ignored c = ig"
    and "map_of L (name c) = Some ent" "tx = is_text_file ent"
  shows "aggregates_ok L (add_file r c ig tx)"
  using assms by (cases r; cases c) auto

lemma aggregates_ok_add_subdir:
  assumes "\<not> is_FileNode r" "aggregates_ok L r" "\<not> is_FileNode s"
    and "aggregates_ok (listing_of L (name s)) s"
  shows "aggregates_ok L (add_subdir r s ig)"
  using assms by (cases r; cases s) (auto simp: Let_def)

lemma name_add_total_text_size: "name (add_total_text_size r n) = name r"
  by (cases r) simp_all

lemma name_result1_of: "name (result1_of ent r) = name r"
  by (simp add: result1_of_def name_add_total_text_size)

lemma name_add_file: "name (add_file r c ig tx) = name r"
  by (cases r) simp_all

lemma name_add_subdir: "name (add_subdir r s ig) = name r"
  by (cases r) (simp_all add: Let_def)

lemma listing_of_subdir:
  "map_of L item = Some (Subdir d) \<Longrightarrow> listing_of L item = entries_of d"
  by (cases d) simp_all

lemma aggregates_inv_step:
  assumes mem: "(item, ent) \<in> set L"
    and inv: "aggregates_inv L path r"
    and sub: "\<And>d t. ent = Subdir d \<Longrightarrow> sub = Inr (Some t) \<Longrightarrow>
        aggregates_inv (entries_of d) (join path item) t"
    and body: "loop_body e item ent ig fp ex sub r h = Inr (r', h')"
  shows "aggregates_inv L path r'"
  unfolding aggregates_inv_def
proof (intro impI)
  assume wf: "wf_items L"
  with inv have r: "\<not> is_FileNode r" "name r = basename path" "aggregates_ok L r"
    by (simp_all add: aggregates_inv_def)
  from wf mem have look: "map_of L item = Some ent"
    by (rule wf_items_map_of)
  from wf mem have item: "sep \<notin> set item" and wfd: "\<And>d. ent = Subdir d \<Longrightarrow> wf_dir d"
    using wf_items_member by blast+
  from body show "\<not> is_FileNode r' \<and> name r' = basename path \<and> aggregates_ok L r'"
  proof (cases rule: loop_body_cases)
    case skipped
    with r show ?thesis
      by (simp add: not_file_result1_of name_result1_of aggregates_ok_result1_of)
  next
    case (file_added c tx)
    from file_child_Some [OF file_added(3)]
    have c: "is_FileNode c" "name c = item" "is_ignored c = ig" "tx = is_text_file ent"
      by simp_all
    have "aggregates_ok L (add_file (result1_of ent r) c ig tx)"
      using r c look
      by (intro aggregates_ok_add_file [where ent = ent])
        (simp_all add: not_file_result1_of aggregates_ok_result1_of)
    with r file_added show ?thesis
      by (simp add: not_file_add_file not_file_result1_of name_add_file name_result1_of)
  next
    case (subdir_added d s)
    have "wf_items (entries_of d)"
      using wfd [OF subdir_added(2)] by (cases d) simp_all
    with sub [OF subdir_added(2,3)]
    have s: "\<not> is_FileNode s" "name s = basename (join path item)" "aggregates_ok (entries_of d) s"
      by (simp_all add: aggregates_inv_def)
    from s(2) item have "name s = item"
      by (simp add: basename_join)
    with look subdir_added(2) have "listing_of L (name s) = entries_of d"
      by (metis listing_of_subdir)
    with s have "aggregates_ok (listing_of L (name s)) s"
      by simp
    with r s(1) have "aggregates_ok L (add_subdir (result1_of ent r) s ig)"
      by (intro aggregates_ok_add_subdir)
        (simp_all add: not_file_result1_of aggregates_ok_result1_of)
    with r subdir_added show ?thesis
      by (simp add: not_file_add_subdir not_file_result1_of name_add_subdir name_result1_of)
  qed
qed

lemma analyze_directory_aggregates:
  "analyze_directory e d path ign base git md cur fp ex = Inr (Some t) \<Longrightarrow>
     aggregates_inv (entries_of d) path t"
proof (rule analyze_invariant(1) [where I = "\<lambda>L p r h. aggregates_inv L p r"
      and G = "\<lambda>d p t. aggregates_inv (entries_of d) p t"])
  show "aggregates_inv items p (DirNode (basename p) 0 [] 0 0 0 0 0 None)" for items p
    by (simp add: aggregates_inv_def)
  show "aggregates_inv L p r'"
    if "(item, ent) \<in> set L" "aggregates_inv L p r"
      "\<And>d t. ent = Subdir d \<Longrightarrow> sub = Inr (Some t) \<Longrightarrow> aggregates_inv (entries_of d) (join p item) t"
      "loop_body e item ent ig fp ex sub r h = Inr (r', h')"
    for L p item ent ig sub r h r' h'
    using that by (rule aggregates_inv_step)
  show "aggregates_inv (entries_of (Dir items)) p r" if "aggregates_inv items p r" for items p r
    using that by simp
qed

text \<open>
  C1. In every tree \<^verbatim>\<open>analyze_directory\<close> returns for a directory, each directory node
  has \<^verbatim>\<open>size\<close>, \<^verbatim>\<open>total_tokens\<close>, \<^verbatim>\<open>file_count\<close>, \<^verbatim>\<open>dir_count\<close> and
  \<^verbatim>\<open>text_content_size\<close> equal to the sums over its children that are not ignored, a
  file counting as one file and a directory as itself and the directories below it, at
  every level.
\<close>

theorem aggregation_invariant:
  assumes "wf_dir d"
    and "analyze_directory e d path ign base git md cur fp ex = Inr (Some t)"
  shows "aggregates_ok (entries_of d) t"
proof -
  from assms(1) have "wf_items (entries_of d)"
    by (cases d) simp_all
  with analyze_directory_aggregates [OF assms(2)] show ?thesis
    by (simp add: aggregates_inv_def)
qed

section \<open>Directories without a passing text file\<close>

lemma file_child_text_passes:
  "file_child e item ent ig fp ex = Some (c, True) \<Longrightarrow> is_text_file ent \<and> passes_filter e ent fp"
  by (auto simp: file_child_def filter_content_def passes_filter_def Let_def
      split: if_splits option.splits)

lemma no_passing:
  "path \<noteq> [] \<Longrightarrow> passing_files e d path ign base fp = [] \<Longrightarrow>
     analyze_directory e d path ign base git md cur fp ex = Inr None"
  "path \<noteq> [] \<Longrightarrow> passing_items e items path ign base fp = [] \<Longrightarrow>
     \<exists>r'. analyze_items e items path ign base git md cur fp ex r h = Inr (r', h)"
proof (induction d and items arbitrary: path cur and path cur r h rule: wf_dir_wf_items.induct)
  case (1 items)
  from "1.prems" have "passing_items e items path ign base fp = []"
    by simp
  from "1.IH" [OF "1.prems"(1) this]
  obtain r' where "analyze_items e items path ign base git md cur fp ex
      (DirNode (basename path) 0 [] 0 0 0 0 0 None) False = Inr (r', False)"
    by blast
  then show ?case
    by (simp add: analyze_directory_Dir)
next
  case 2
  show ?case by simp
next
  case 3
  show ?case by simp
next
  case (4 item ent items)
  from "4.prems"(2) have rest_empty: "passing_items e items path ign base fp = []"
    by simp
  have rest: "\<exists>r'. analyze_items e items path ign base git md cur fp ex r0 h = Inr (r', h)" for r0
    using "4.IH"(2) [OF "4.prems"(1) rest_empty] .
  show ?case
  proof (cases "item = ''.git'' \<and> \<not> git")
    case True
    from rest [of r] show ?thesis
      unfolding analyze_items_skip [OF True] .
  next
    case False
    from "4.prems"(1) have ne: "join path item \<noteq> []"
      by (rule join_nonempty)
    then obtain ig where ig: "should_ignore e (join path item) base ign = Inr ig"
      using should_ignore_nonempty by blast
    define sub where "sub = (case ent of
        Subdir d \<Rightarrow>
          if ig then Inr None
          else analyze_directory e d (join path item) ign base git md (cur + 1) fp ex
      | _ \<Rightarrow> Inr None)"
    have body: "\<exists>r1. loop_body e item ent ig fp ex sub r h = Inr (r1, h)"
    proof (cases ig)
      case True
      then show ?thesis
        by (simp add: loop_body_def)
    next
      case not_ig: False
      show ?thesis
      proof (cases ent)
        case (File readable bs)
        have "tx = False" if "file_child e item ent ig fp ex = Some (c, tx)" for c tx
        proof (rule ccontr)
          assume "tx \<noteq> False"
          with that have "file_child e item ent ig fp ex = Some (c, True)"
            by simp
          from file_child_text_passes [OF this] File not_ig ig "4.prems"(2)
          show False by simp
        qed
        with File not_ig show ?thesis
          by (cases "file_child e item ent ig fp ex") (auto simp: loop_body_def Let_def)
      next
        case (Subdir d)
        with "4.prems"(2) have "passing_files e d (join path item) ign base fp = []"
          by simp
        from "4.IH"(1) [OF Subdir ne this]
        have "sub = Inr None"
          using Subdir by (simp add: sub_def)
        with Subdir not_ig show ?thesis
          by (simp add: loop_body_def)
      next
        case Other
        with not_ig show ?thesis
          by (simp add: loop_body_def)
      qed
    qed
    then obtain r1 where "loop_body e item ent ig fp ex sub r h = Inr (r1, h)"
      by blast
    with ig rest [of r1] show ?thesis
      unfolding analyze_items_step [OF False] sub_def by simp
  qed
qed

text \<open>
  C10. A directory with no text file in its subtree that is not ignored and passes the
  content filter gives \<^verbatim>\<open>None\<close>, whatever binary files it holds: no tree, so no node
  for them.
\<close>

theorem binary_only_absent:
  assumes "path \<noteq> []"
    and "passing_files e d path ign base fp = []"
  shows "analyze_directory e d path ign base git md cur fp ex = Inr None"
  using assms by (rule no_passing(1))

section \<open>Adding a pattern that matches nothing\<close>

lemma same_ignore:
  "\<forall>q \<in> set (checked_paths e d path ign base git md cur).
      should_ignore e q base ign' = should_ignore e q base ign \<Longrightarrow>
     analyze_directory e d path ign' base git md cur fp ex =
     analyze_directory e d path ign base git md cur fp ex"
  "\<forall>q \<in> set (checked_items e items path ign base git md cur).
      should_ignore e q base ign' = should_ignore e q base ign \<Longrightarrow>
     analyze_items e items path ign' base git md cur fp ex r h =
     analyze_items e items path ign base git md cur fp ex r h"
proof (induction d and items arbitrary: path cur and path cur r h rule: wf_dir_wf_items.induct)
  case (1 items)
  show ?case
  proof (cases "md \<noteq> None \<and> cur > the md")
    case True
    then show ?thesis by (simp add: analyze_directory_Dir)
  next
    case False
    with "1.prems" have "\<forall>q \<in> set (checked_items e items path ign base git md cur).
        should_ignore e q base ign' = should_ignore e q base ign"
      by simp
    from "1.IH" [OF this]
    have "analyze_items e items path ign' base git md cur fp ex
            (DirNode (basename path) 0 [] 0 0 0 0 0 None) False =
          analyze_items e items path ign base git md cur fp ex
            (DirNode (basename path) 0 [] 0 0 0 0 0 None) False" .
    then show ?thesis
      by (simp only: analyze_directory_Dir)
  qed
next
  case 2
  show ?case by simp
next
  case 3
  show ?case by simp
next
  case (4 item ent items)
  show ?case
  proof (cases "item = ''.git'' \<and> \<not> git")
    case True
    with "4.prems" have "\<forall>q \<in> set (checked_items e items path ign base git md cur).
        should_ignore e q base ign' = should_ignore e q base ign"
      by simp
    from "4.IH"(2) [OF this] show ?thesis
      unfolding analyze_items_skip [OF True] .
  next
    case False
    then have chk: "checked_items e ((item, ent) # items) path ign base git md cur =
        join path item #
        (case ent of
           Subdir d \<Rightarrow>
             if should_ignore e (join path item) base ign = Inr False
             then checked_paths e d (join path item) ign base git md (cur + 1)
             else []
         | _ \<Rightarrow> []) @
        checked_items e items path ign base git md cur"
      by auto
    note prems = "4.prems" [unfolded chk]
    from prems have here: "should_ignore e (join path item) base ign' =
        should_ignore e (join path item) base ign"
      and rest: "\<forall>q \<in> set (checked_items e items path ign base git md cur).
        should_ignore e q base ign' = should_ignore e q base ign"
      by simp_all
    have sub: "analyze_directory e d (join path item) ign' base git md (cur + 1) fp ex =
        analyze_directory e d (join path item) ign base git md (cur + 1) fp ex"
      if "ent = Subdir d" "should_ignore e (join path item) base ign = Inr False" for d
    proof -
      from that prems
      have "\<forall>q \<in> set (checked_paths e d (join path item) ign base git md (cur + 1)).
          should_ignore e q base ign' = should_ignore e q base ign"
        by simp
      from "4.IH"(1) [OF that(1) this] show ?thesis .
    qed
    show ?thesis
    proof (cases "should_ignore e (join path item) base ign")
      case (Inl err)
      with here show ?thesis
        unfolding analyze_items_step [OF False] by simp
    next
      case (Inr ig)
      have "(case ent of
          Subdir d \<Rightarrow>
            if ig then Inr None
            else analyze_directory e d (join path item) ign' base git md (cur + 1) fp ex
        | _ \<Rightarrow> Inr None) =
        (case ent of
          Subdir d \<Rightarrow>
            if ig then Inr None
            else analyze_directory e d (join path item) ign base git md (cur + 1) fp ex
        | _ \<Rightarrow> Inr None)"
        using sub Inr by (cases ent; cases ig) simp_all
      with here Inr "4.IH"(2) [OF rest] show ?thesis
        unfolding analyze_items_step [OF False] by (simp split: sum.splits prod.splits)
    qed
  qed
qed

text \<open>
  C9. Adding to the ignore patterns a pattern that matches none of the paths the
  traversal meets leaves the result as it was: the same \<^verbatim>\<open>None\<close> or the same tree.
\<close>

theorem ignore_idempotence:
  assumes "set ign' = insert pattern (set ign)"
    and "\<forall>q \<in> set (checked_paths e d path ign base git md cur).
           should_ignore e q base [pattern] \<noteq> Inr True"
  shows "analyze_directory e d path ign' base git md cur fp ex =
         analyze_directory e d path ign base git md cur fp ex"
proof (rule same_ignore(1), rule ballI)
  fix q
  assume "q \<in> set (checked_paths e d path ign base git md cur)"
  with assms(2) have "should_ignore e q base [pattern] \<noteq> Inr True"
    by blast
  with assms(1) show "should_ignore e q base ign' = should_ignore e q base ign"
    by (rule should_ignore_insert)
qed

section \<open>Which files become children\<close>

lemma str_in_iff: "str_in pattern s \<longleftrightarrow> (\<exists>u v. s = u @ pattern @ v)"
proof (induction s)
  case Nil
  show ?case by auto
next
  case (Cons c cs)
  show ?case
  proof
    assume "str_in pattern (c # cs)"
    then consider "prefix pattern (c # cs)" | "str_in pattern cs"
      by auto
    then show "\<exists>u v. c # cs = u @ pattern @ v"
    proof cases
      case 1
      then obtain v where "c # cs = pattern @ v"
        by (auto simp: prefix_def)
      then have "c # cs = [] @ pattern @ v"
        by simp
      then show ?thesis by blast
    next
      case 2
      with Cons.IH obtain u v where "cs = u @ pattern @ v"
        by blast
      then have "c # cs = (c # u) @ pattern @ v"
        by simp
      then show ?thesis by blast
    qed
  next
    assume "\<exists>u v. c # cs = u @ pattern @ v"
    then obtain u v where uv: "c # cs = u @ pattern @ v"
      by blast
    show "str_in pattern (c # cs)"
    proof (cases u)
      case Nil
      with uv have "prefix pattern (c # cs)"
        by (simp add: prefix_def)
      then show ?thesis by simp
    next
      case (Cons a u')
      with uv have "cs = u' @ pattern @ v"
        by simp
      with Cons.IH have "str_in pattern cs"
        by blast
      then show ?thesis by simp
    qed
  qed
qed

lemma analyze_directory_not_file:
  "analyze_directory e d path ign base git md cur fp ex = Inr (Some t) \<Longrightarrow> \<not> is_FileNode t"
proof (rule analyze_invariant(1) [where I = "\<lambda>L p r h. \<not> is_FileNode r"
      and G = "\<lambda>d p t. \<not> is_FileNode t"])
  show "\<not> is_FileNode r'"
    if "\<not> is_FileNode r" "loop_body e item ent ig fp ex sub r h = Inr (r', h')"
    for item ent ig sub r h r' h'
    using that(2)
    by (cases rule: loop_body_cases)
      (simp_all add: that(1) not_file_result1_of not_file_add_file not_file_add_subdir)
qed simp_all

lemma loop_body_keeps:
  assumes "\<not> is_FileNode r" "loop_body e item ent ig fp ex sub r h = Inr (r', h')"
  shows "\<not> is_FileNode r' \<and> set (children r) \<subseteq> set (children r') \<and> (h \<longrightarrow> h')"
  using assms(2)
  by (cases rule: loop_body_cases)
    (auto simp: assms(1) not_file_result1_of not_file_add_file not_file_add_subdir
      children_result1_of children_add_file children_add_subdir)

lemma analyze_items_keeps:
  "\<not> is_FileNode r \<Longrightarrow>
   analyze_items e items path ign base git md cur fp ex r h = Inr (r', h') \<Longrightarrow>
     \<not> is_FileNode r' \<and> set (children r) \<subseteq> set (children r') \<and> (h \<longrightarrow> h')"
proof (induction items arbitrary: r h)
  case Nil
  then show ?case by simp
next
  case (Cons x items)
  obtain item ent where x: "x = (item, ent)"
    by (cases x)
  show ?case
  proof (cases "item = ''.git'' \<and> \<not> git")
    case True
    with Cons.prems Cons.IH [of r h] show ?thesis
      by (simp add: x analyze_items_skip)
  next
    case False
    from Cons.prems(2) obtain ig sub r1 h1 where
      body: "loop_body e item ent ig fp ex sub r h = Inr (r1, h1)"
      and rest: "analyze_items e items path ign base git md cur fp ex r1 h1 = Inr (r', h')"
      unfolding x analyze_items_step [OF False]
      by (auto split: sum.splits prod.splits)
    from loop_body_keeps [OF Cons.prems(1) body] Cons.IH [OF _ rest] show ?thesis
      by blast
  qed
qed

lemma file_children_sound:
  "\<not> is_FileNode r \<Longrightarrow>
   analyze_items e items path ign base git md cur fp ex r h = Inr (r', h') \<Longrightarrow>
   c \<in> set (children r') \<Longrightarrow> is_FileNode c \<Longrightarrow>
     c \<in> set (children r) \<or>
     (\<exists>ent tx. (name c, ent) \<in> set items \<and> file_child e (name c) ent False fp ex = Some (c, tx))"
proof (induction items arbitrary: r h)
  case Nil
  then show ?case by simp
next
  case (Cons x items)
  obtain item ent where x: "x = (item, ent)"
    by (cases x)
  show ?case
  proof (cases "item = ''.git'' \<and> \<not> git")
    case True
    with Cons.prems Cons.IH [of r h] show ?thesis
      by (auto simp: x analyze_items_skip)
  next
    case False
    define sub where "sub = (\<lambda>ig. case ent of
        Subdir d \<Rightarrow>
          if ig then Inr None
          else analyze_directory e d (join path item) ign base git md (cur + 1) fp ex
      | _ \<Rightarrow> Inr None)"
    from Cons.prems(2) obtain ig r1 h1 where
      body: "loop_body e item ent ig fp ex (sub ig) r h = Inr (r1, h1)"
      and rest: "analyze_items e items path ign base git md cur fp ex r1 h1 = Inr (r', h')"
      unfolding x analyze_items_step [OF False] sub_def
      by (auto split: sum.splits prod.splits)
    from loop_body_keeps [OF Cons.prems(1) body] have r1: "\<not> is_FileNode r1"
      by simp
    from Cons.IH [OF r1 rest Cons.prems(3,4)]
    consider "c \<in> set (children r1)"
      | "\<exists>ent tx. (name c, ent) \<in> set items \<and> file_child e (name c) ent False fp ex = Some (c, tx)"
      by blast
    then show ?thesis
    proof cases
      case 1
      from body show ?thesis
      proof (cases rule: loop_body_cases)
        case skipped
        with 1 show ?thesis
          by (simp add: children_result1_of)
      next
        case (file_added c0 tx)
        show ?thesis
        proof (cases "c = c0")
          case True
          with file_added file_child_Some [OF file_added(3)] show ?thesis
            by (auto simp: x)
        next
          case False
          with 1 file_added Cons.prems(1) show ?thesis
            by (simp add: children_add_file not_file_result1_of children_result1_of)
        qed
      next
        case (subdir_added d s)
        from subdir_added(1,2,3) have "\<not> is_FileNode s"
          by (auto simp: sub_def dest: analyze_directory_not_file)
        then have "\<not> is_FileNode (set_is_ignored s ig)"
          by (cases s) simp_all
        with Cons.prems(4) have "c \<noteq> set_is_ignored s ig"
          by blast
        with 1 subdir_added Cons.prems(1) show ?thesis
          by (simp add: children_add_subdir not_file_result1_of children_result1_of)
      qed
    next
      case 2
      then show ?thesis by (auto simp: x)
    qed
  qed
qed

lemma file_children_complete:
  "\<not> is_FileNode r \<Longrightarrow> (item, ent) \<in> set items \<Longrightarrow> \<not> (item = ''.git'' \<and> \<not> git) \<Longrightarrow>
   should_ignore e (join path item) base ign = Inr False \<Longrightarrow> isfile ent \<Longrightarrow>
   file_child e item ent False fp ex = Some (c, tx) \<Longrightarrow>
   analyze_items e items path ign base git md cur fp ex r h = Inr (r', h') \<Longrightarrow>
     c \<in> set (children r') \<and> (tx \<longrightarrow> h')"
proof (induction items arbitrary: r h)
  case Nil
  then show ?case by simp
next
  case (Cons x items)
  show ?case
  proof (cases "x = (item, ent)")
    case True
    from Cons.prems(5) obtain readable bs where ent: "ent = File readable bs"
      by (cases ent) simp_all
    define sub where "sub = (case ent of
        Subdir d \<Rightarrow>
          if False then Inr None
          else analyze_directory e d (join path item) ign base git md (cur + 1) fp ex
      | _ \<Rightarrow> Inr None)"
    have body: "loop_body e item ent False fp ex sub r h =
        Inr (add_file (result1_of ent r) c False tx, h \<or> tx)"
      using Cons.prems(6) unfolding ent loop_body_def result1_of_def by simp
    have "analyze_items e ((item, ent) # items) path ign base git md cur fp ex r h =
        analyze_items e items path ign base git md cur fp ex
          (add_file (result1_of ent r) c False tx) (h \<or> tx)"
      unfolding analyze_items_step [OF Cons.prems(3)] Cons.prems(4) sum.case sub_def [symmetric]
        body by simp
    with Cons.prems(7) True
    have rest: "analyze_items e items path ign base git md cur fp ex
        (add_file (result1_of ent r) c False tx) (h \<or> tx) = Inr (r', h')"
      by simp
    have "\<not> is_FileNode (add_file (result1_of ent r) c False tx)"
      using Cons.prems(1) by (simp add: not_file_add_file not_file_result1_of)
    from analyze_items_keeps [OF this rest] Cons.prems(1) show ?thesis
      by (auto simp: children_add_file not_file_result1_of)
  next
    case False
    with Cons.prems(2) have mem: "(item, ent) \<in> set items"
      by simp
    obtain item0 ent0 where x: "x = (item0, ent0)"
      by (cases x)
    show ?thesis
    proof (cases "item0 = ''.git'' \<and> \<not> git")
      case True
      with Cons.prems(7) have "analyze_items e items path ign base git md cur fp ex r h = Inr (r', h')"
        by (simp add: x analyze_items_skip)
      from Cons.IH [OF Cons.prems(1) mem Cons.prems(3,4,5,6) this] show ?thesis .
    next
      case no_skip: False
      from Cons.prems(7) obtain ig sub r1 h1 where
        body: "loop_body e item0 ent0 ig fp ex sub r h = Inr (r1, h1)"
        and rest: "analyze_items e items path ign base git md cur fp ex r1 h1 = Inr (r', h')"
        unfolding x analyze_items_step [OF no_skip]
        by (auto split: sum.splits prod.splits)
      from loop_body_keeps [OF Cons.prems(1) body] have "\<not> is_FileNode r1"
        by simp
      from Cons.IH [OF this mem Cons.prems(3,4,5,6) rest] show ?thesis .
    qed
  qed
qed

lemma loop_body_total:
  assumes "\<And>d. ent = Subdir d \<Longrightarrow> \<not> ig \<Longrightarrow> \<exists>s. sub = Inr s"
  shows "\<exists>r' h'. loop_body e item ent ig fp ex sub r h = Inr (r', h')"
proof (cases ig)
  case True
  then show ?thesis
    by (simp add: loop_body_def)
next
  case False
  show ?thesis
  proof (cases ent)
    case (File readable bs)
    with False show ?thesis
      by (cases "file_child e item ent ig fp ex") (auto simp: loop_body_def Let_def)
  next
    case (Subdir d)
    with assms False obtain s where "sub = Inr s"
      by blast
    with Subdir False show ?thesis
      by (auto simp: loop_body_def)
  next
    case Other
    with False show ?thesis
      by (simp add: loop_body_def)
  qed
qed

lemma analyze_total:
  "path \<noteq> [] \<Longrightarrow> \<exists>x. analyze_directory e d path ign base git md cur fp ex = Inr x"
  "path \<noteq> [] \<Longrightarrow> \<exists>r' h'. analyze_items e items path ign base git md cur fp ex r h = Inr (r', h')"
proof (induction d and items arbitrary: path cur and path cur r h rule: wf_dir_wf_items.induct)
  case (1 items)
  from "1.IH" [OF "1.prems", of cur "DirNode (basename path) 0 [] 0 0 0 0 0 None" False]
  obtain r' h' where
    "analyze_items e items path ign base git md cur fp ex
       (DirNode (basename path) 0 [] 0 0 0 0 0 None) False = Inr (r', h')"
    by (elim exE)
  then show ?case
    unfolding analyze_directory_Dir by simp
next
  case 2
  show ?case by simp
next
  case 3
  show ?case by simp
next
  case (4 item ent items)
  show ?case
  proof (cases "item = ''.git'' \<and> \<not> git")
    case True
    from "4.IH"(2) [OF "4.prems", of cur r h] show ?thesis
      unfolding analyze_items_skip [OF True] .
  next
    case False
    from "4.prems" have ne: "join path item \<noteq> []"
      by (rule join_nonempty)
    then obtain ig where ig: "should_ignore e (join path item) base ign = Inr ig"
      using should_ignore_nonempty by blast
    define sub where "sub = (case ent of
        Subdir d \<Rightarrow>
          if ig then Inr None
          else analyze_directory e d (join path item) ign base git md (cur + 1) fp ex
      | _ \<Rightarrow> Inr None)"
    have sub_ok: "\<exists>s. sub = Inr s" if "ent = Subdir d" "\<not> ig" for d
      using "4.IH"(1) [of d "join path item" "cur + 1", OF that(1) ne] that
      by (simp add: sub_def)
    have "\<exists>r' h'. loop_body e item ent ig fp ex sub r h = Inr (r', h')"
      by (rule loop_body_total) (rule sub_ok)
    then obtain r1 h1 where body: "loop_body e item ent ig fp ex sub r h = Inr (r1, h1)"
      by (elim exE)
    have "analyze_items e ((item, ent) # items) path ign base git md cur fp ex r h =
        analyze_items e items path ign base git md cur fp ex r1 h1"
      unfolding analyze_items_step [OF False] ig sum.case sub_def [symmetric] body by simp
    with "4.IH"(2) [OF "4.prems", of cur r1 h1] show ?thesis
      by simp
  qed
qed

lemma distinct_names_unique:
  "distinct (map fst items) \<Longrightarrow> (item, ent) \<in> set items \<Longrightarrow> (item, ent') \<in> set items \<Longrightarrow>
     ent = ent'"
  by (induction items) (auto simp: rev_image_eqI)

lemma file_child_text:
  "is_text_file ent \<Longrightarrow> file_child e item ent ig fp ex = Some (c, tx) \<Longrightarrow>
     \<exists>final. filter_content e (read_file_content e ent) fp ex = Some final \<and>
       c = FileNode item (getsize ent) (count_tokens e final) final ig"
  by (auto simp: file_child_def Let_def split: option.splits)

lemma is_text_file_readable: "is_text_file (File readable bs) \<Longrightarrow> readable"
  by (simp add: is_text_file_File)

lemma filter_content_truthy:
  "truthy fp \<Longrightarrow> filter_content e source fp ex = Some final \<Longrightarrow>
     list_all (\<lambda>pattern. str_in pattern source) (the fp) \<and>
     (ex \<longrightarrow> final = extract_classes_and_functions e source (the fp) \<and> final \<noteq> [])"
  by (auto simp: filter_content_def Let_def split: if_splits)

lemma filter_content_not_truthy:
  "\<not> truthy fp \<Longrightarrow> filter_content e source fp ex = Some source"
  by (simp add: filter_content_def)

lemma root_run:
  "analyze_directory e (Dir items) path ign base git md cur fp ex = Inr (Some t) \<Longrightarrow>
     analyze_items e items path ign base git md cur fp ex
       (DirNode (basename path) 0 [] 0 0 0 0 0 None) False = Inr (t, True)"
  by (auto simp: analyze_directory_Dir split: if_splits sum.splits prod.splits)

lemma file_child_of_listed:
  assumes names: "distinct (map fst items)"
    and mem: "(item, ent) \<in> set items"
    and run: "analyze_directory e (Dir items) path ign base git md cur fp ex = Inr (Some t)"
    and c: "c \<in> set (children t)" "is_FileNode c" "name c = item"
  shows "\<exists>tx. file_child e item ent False fp ex = Some (c, tx)"
proof -
  have "\<not> is_FileNode (DirNode (basename path) 0 [] 0 0 0 0 0 None)"
    by simp
  from file_children_sound [OF this root_run [OF run] c(1,2)]
  obtain ent' tx where "(name c, ent') \<in> set items"
    and fc: "file_child e (name c) ent' False fp ex = Some (c, tx)"
    by auto
  with names mem c(3) have "ent' = ent"
    by (metis distinct_names_unique)
  with fc c(3) show ?thesis by blast
qed

lemma extract_loop_eq:
  "extract_loop patterns defs acc =
     acc @ concat (map (\<lambda>block. block @ [CHR 0x0A, CHR 0x0A])
                    (filter (\<lambda>block. \<exists>pattern \<in> set patterns. str_in pattern block) defs))"
  by (induction defs arbitrary: acc) (simp_all add: list_ex_iff)

text \<open>
  C5. With filter patterns configured, a text file is among the children of the tree only
  if each of the patterns occurs in its raw content; with none configured (\<^verbatim>\<open>None\<close> or
  the empty list), every text file that is not ignored is a child of the tree, with its
  whole content.
\<close>

theorem content_filter_and_gate:
  assumes "distinct (map fst items)"
    and "(item, File readable bs) \<in> set items"
    and "is_text_file (File readable bs)"
  shows "(truthy fp \<longrightarrow>
            (\<forall>t c. analyze_directory e (Dir items) path ign base git md cur fp ex = Inr (Some t) \<longrightarrow>
               c \<in> set (children t) \<longrightarrow> is_FileNode c \<longrightarrow> name c = item \<longrightarrow>
               (\<forall>pattern \<in> set (the fp). \<exists>u v. read_text e bs = u @ pattern @ v))) \<and>
         (\<not> truthy fp \<longrightarrow> path \<noteq> [] \<longrightarrow> \<not> (md \<noteq> None \<and> cur > the md) \<longrightarrow>
            \<not> (item = ''.git'' \<and> \<not> git) \<longrightarrow>
            should_ignore e (join path item) base ign = Inr False \<longrightarrow>
            (\<exists>t. analyze_directory e (Dir items) path ign base git md cur fp ex = Inr (Some t) \<and>
                 FileNode item (length bs) (count_tokens e (read_text e bs)) (read_text e bs) False
                   \<in> set (children t)))"
proof (intro conjI impI allI)
  from assms(3) have readable: readable
    by (rule is_text_file_readable)
  {
    fix t c
    assume fp: "truthy fp"
      and run: "analyze_directory e (Dir items) path ign base git md cur fp ex = Inr (Some t)"
      and c: "c \<in> set (children t)" "is_FileNode c" "name c = item"
    from file_child_of_listed [OF assms(1,2) run c]
    obtain tx where "file_child e item (File readable bs) False fp ex = Some (c, tx)"
      by blast
    from file_child_text [OF assms(3) this] readable
    obtain final where "filter_content e (read_text e bs) fp ex = Some final"
      by auto
    from filter_content_truthy [OF fp this]
    show "\<forall>pattern \<in> set (the fp). \<exists>u v. read_text e bs = u @ pattern @ v"
      by (simp add: list_all_iff str_in_iff)
  next
    assume fp: "\<not> truthy fp" and path: "path \<noteq> []"
      and depth: "\<not> (md \<noteq> None \<and> cur > the md)"
      and git: "\<not> (item = ''.git'' \<and> \<not> git)"
      and ig: "should_ignore e (join path item) base ign = Inr False"
    let ?c = "FileNode item (length bs) (count_tokens e (read_text e bs)) (read_text e bs) False"
    let ?init = "DirNode (basename path) 0 [] 0 0 0 0 0 None"
    have child: "file_child e item (File readable bs) False fp ex = Some (?c, True)"
      using assms(3) readable
      by (simp add: file_child_def filter_content_not_truthy [OF fp])
    from analyze_total(2) [OF path, of e items ign base git md cur fp ex ?init False]
    obtain r' h' where
      run: "analyze_items e items path ign base git md cur fp ex ?init False = Inr (r', h')"
      by (elim exE)
    have "\<not> is_FileNode ?init" "isfile (File readable bs)"
      by simp_all
    from file_children_complete [OF this(1) assms(2) git ig this(2) child run]
    have "?c \<in> set (children r')" and h' by simp_all
    with run depth
    have "analyze_directory e (Dir items) path ign base git md cur fp ex = Inr (Some r')"
      by (simp add: analyze_directory_Dir)
    with \<open>?c \<in> set (children r')\<close>
    show "\<exists>t. analyze_directory e (Dir items) path ign base git md cur fp ex = Inr (Some t) \<and>
        ?c \<in> set (children t)"
      by blast
  }
qed

text \<open>
  C6. \<^verbatim>\<open>extract_classes_and_functions\<close> returns the class blocks, in the order found,
  and then the function blocks, in the order found, that contain at least one of the
  patterns, each block followed by two newlines. And in \<^verbatim>\<open>analyze_directory\<close> with
  extraction on, a text file whose extraction result is the empty string is no child of
  the tree.
\<close>

theorem definition_extraction:
  "extract_classes_and_functions e source patterns =
     concat (map (\<lambda>block. block @ [CHR 0x0A, CHR 0x0A])
       (filter (\<lambda>block. \<exists>pattern \<in> set patterns. \<exists>u v. block = u @ pattern @ v)
          (class_pattern_finditer e source))) @
     concat (map (\<lambda>block. block @ [CHR 0x0A, CHR 0x0A])
       (filter (\<lambda>block. \<exists>pattern \<in> set patterns. \<exists>u v. block = u @ pattern @ v)
          (function_pattern_finditer e source))) \<and>
   (distinct (map fst items) \<longrightarrow> (item, File readable bs) \<in> set items \<longrightarrow>
    is_text_file (File readable bs) \<longrightarrow> truthy fp \<longrightarrow>
    extract_classes_and_functions e (read_text e bs) (the fp) = [] \<longrightarrow>
      (\<forall>t c. analyze_directory e (Dir items) path ign base git md cur fp True = Inr (Some t) \<longrightarrow>
         c \<in> set (children t) \<longrightarrow> \<not> (is_FileNode c \<and> name c = item)))"
proof (intro conjI impI allI notI)
  show "extract_classes_and_functions e source patterns =
     concat (map (\<lambda>block. block @ [CHR 0x0A, CHR 0x0A])
       (filter (\<lambda>block. \<exists>pattern \<in> set patterns. \<exists>u v. block = u @ pattern @ v)
          (class_pattern_finditer e source))) @
     concat (map (\<lambda>block. block @ [CHR 0x0A, CHR 0x0A])
       (filter (\<lambda>block. \<exists>pattern \<in> set patterns. \<exists>u v. block = u @ pattern @ v)
          (function_pattern_finditer e source)))"
    by (simp add: extract_classes_and_functions_def extract_loop_eq str_in_iff)
next
  fix t c
  assume names: "distinct (map fst items)"
    and mem: "(item, File readable bs) \<in> set items"
    and is_text: "is_text_file (File readable bs)"
    and fp: "truthy fp"
    and empty: "extract_classes_and_functions e (read_text e bs) (the fp) = []"
    and run: "analyze_directory e (Dir items) path ign base git md cur fp True = Inr (Some t)"
    and c: "c \<in> set (children t)" "is_FileNode c \<and> name c = item"
  from is_text have readable: readable
    by (rule is_text_file_readable)
  from c(2) have c2: "is_FileNode c" "name c = item"
    by simp_all
  from file_child_of_listed [OF names mem run c(1) c2]
  obtain tx where "file_child e item (File readable bs) False fp True = Some (c, tx)"
    by blast
  from file_child_text [OF is_text this] readable
  obtain final where "filter_content e (read_text e bs) fp True = Some final"
    by auto
  from filter_content_truthy [OF fp this] empty
  show False by simp
qed

section \<open>What the tree holds of ignored entries and of text sizes\<close>

lemma none_ignored_set_is_ignored:
  "\<not> is_FileNode s \<Longrightarrow> none_ignored s \<Longrightarrow> none_ignored (set_is_ignored s False)"
  by (cases s) simp_all

lemma none_ignored_add_total_text_size:
  "none_ignored (add_total_text_size r n) = none_ignored r"
  by (cases r) simp_all

lemma none_ignored_result1_of: "none_ignored (result1_of ent r) = none_ignored r"
  by (simp add: result1_of_def none_ignored_add_total_text_size)

lemma none_ignored_add_file:
  "\<not> is_FileNode r \<Longrightarrow> none_ignored r \<Longrightarrow> none_ignored c \<Longrightarrow>
     none_ignored (add_file r c ig tx)"
  by (cases r) simp_all

lemma none_ignored_add_subdir:
  "\<not> is_FileNode r \<Longrightarrow> none_ignored r \<Longrightarrow> \<not> is_FileNode s \<Longrightarrow> none_ignored s \<Longrightarrow>
     none_ignored (add_subdir r s False)"
  by (cases r) (simp_all add: Let_def none_ignored_set_is_ignored)

lemma none_ignored_inv_step:
  assumes "none_ignored_inv r"
    and "\<And>d t. ent = Subdir d \<Longrightarrow> sub = Inr (Some t) \<Longrightarrow> none_ignored_inv t"
    and "loop_body e item ent ig fp ex sub r h = Inr (r', h')"
  shows "none_ignored_inv r'"
  using assms(3)
proof (cases rule: loop_body_cases)
  case skipped
  with assms(1) show ?thesis
    by (simp add: none_ignored_inv_def not_file_result1_of none_ignored_result1_of)
next
  case (file_added c tx)
  from file_child_Some [OF file_added(3)] file_added(1) have "none_ignored c"
    by (cases c) simp_all
  with assms(1) file_added show ?thesis
    by (simp add: none_ignored_inv_def not_file_result1_of none_ignored_result1_of
        not_file_add_file none_ignored_add_file)
next
  case (subdir_added d s)
  from assms(2) [OF subdir_added(2,3)] have "\<not> is_FileNode s" "none_ignored s"
    by (simp_all add: none_ignored_inv_def)
  with assms(1) subdir_added show ?thesis
    by (simp add: none_ignored_inv_def not_file_result1_of none_ignored_result1_of
        not_file_add_subdir none_ignored_add_subdir)
qed

text \<open>
  No node of a returned tree carries \<^verbatim>\<open>is_ignored\<close> true: an ignored entry never
  becomes a child.
\<close>

lemma analyze_directory_none_ignored_inv:
  "analyze_directory e d path ign base git md cur fp ex = Inr (Some t) \<Longrightarrow> none_ignored_inv t"
  by (rule analyze_invariant(1) [where I = "\<lambda>L p r h. none_ignored_inv r"
        and G = "\<lambda>d p. none_ignored_inv"])
    (auto simp: none_ignored_inv_def [of "DirNode _ _ _ _ _ _ _ _ _"] intro: none_ignored_inv_step)

lemma analyze_directory_none_ignored:
  "analyze_directory e d path ign base git md cur fp ex = Inr (Some t) \<Longrightarrow> none_ignored t"
  using analyze_directory_none_ignored_inv [of e d path ign base git md cur fp ex t]
  by (simp add: none_ignored_inv_def)

lemma total_text_size_add_file:
  "\<not> is_FileNode r \<Longrightarrow> total_text_size (add_file r c ig tx) = total_text_size r"
  by (cases r) simp_all

lemma total_text_size_add_subdir:
  "\<not> is_FileNode r \<Longrightarrow> total_text_size (add_subdir r s ig) = total_text_size r"
  by (cases r) (simp_all add: Let_def)

lemma total_text_size_result1_of:
  "\<not> is_FileNode r \<Longrightarrow>
     total_text_size (result1_of ent r) =
       total_text_size r + (if isfile ent \<and> is_text_file ent then getsize ent else 0)"
  by (cases r) (simp_all add: result1_of_def)

lemma total_text_size_loop_body:
  assumes "\<not> is_FileNode r" "loop_body e item ent ig fp ex sub r h = Inr (r', h')"
  shows "total_text_size r' =
     total_text_size r + (if isfile ent \<and> is_text_file ent then getsize ent else 0)"
  using assms(2)
  by (cases rule: loop_body_cases)
    (simp_all add: assms(1) total_text_size_result1_of total_text_size_add_file
      total_text_size_add_subdir not_file_result1_of)

lemma total_text_size_items:
  "\<not> is_FileNode r \<Longrightarrow>
   analyze_items e items path ign base git md cur fp ex r h = Inr (r', h') \<Longrightarrow>
     total_text_size r' = total_text_size r + direct_text_size git items"
proof (induction items arbitrary: r h)
  case Nil
  then show ?case by (simp add: direct_text_size_def)
next
  case (Cons x items)
  obtain item ent where x: "x = (item, ent)"
    by (cases x)
  show ?case
  proof (cases "item = ''.git'' \<and> \<not> git")
    case True
    with Cons.prems(2) have "analyze_items e items path ign base git md cur fp ex r h = Inr (r', h')"
      by (simp add: x analyze_items_skip)
    from Cons.IH [OF Cons.prems(1) this] True show ?thesis
      by (auto simp: x direct_text_size_def)
  next
    case False
    from Cons.prems(2) obtain ig sub r1 h1 where
      body: "loop_body e item ent ig fp ex sub r h = Inr (r1, h1)"
      and rest: "analyze_items e items path ign base git md cur fp ex r1 h1 = Inr (r', h')"
      unfolding x analyze_items_step [OF False]
      by (auto split: sum.splits prod.splits)
    from loop_body_keeps [OF Cons.prems(1) body] have "\<not> is_FileNode r1"
      by simp
    from Cons.IH [OF this rest] total_text_size_loop_body [OF Cons.prems(1) body] False
    show ?thesis
      by (auto simp: x direct_text_size_def)
  qed
qed

text \<open>
  The \<^verbatim>\<open>total_text_size\<close> of a returned node is the size of the text files listed in
  that directory itself (those the \<^verbatim>\<open>.git\<close> rule does not skip), ignored or not; the
  text files of its subdirectories are not in it.
\<close>

lemma total_text_size_direct:
  assumes "analyze_directory e (Dir items) path ign base git md cur fp ex = Inr (Some t)"
  shows "total_text_size t = direct_text_size git items"
proof -
  have "\<not> is_FileNode (DirNode (basename path) 0 [] 0 0 0 0 0 None)"
    by simp
  from total_text_size_items [OF this root_run [OF assms]] show ?thesis
    by simp
qed

section \<open>Runs on concrete trees\<close>

lemma is_text_file_code [code]:
  "is_text_file (File readable bs) =
     (readable \<and> list_all (\<lambda>b. b \<in> {7, 8, 9, 10, 12, 13, 27} \<or> 0x20 \<le> b) (take 1024 bs))"
  "is_text_file (Subdir d) = False"
  "is_text_file Other = False"
  by (simp_all add: is_text_file_File is_text_file_not_File list_all_iff)

lemma sample_run:
  "analyze_directory sample_env sample_dir ''/proj'' [''*.bin''] ''/proj'' False None 0 None False =
     Inr (Some sample_tree)"
  by code_simp

lemma sample_wf: "wf_dir sample_dir"
  by code_simp

theorem aggregation_invariant_witness:
  "wf_dir sample_dir \<and>
   analyze_directory sample_env sample_dir ''/proj'' [''*.bin''] ''/proj'' False None 0 None False =
     Inr (Some sample_tree) \<and>
   aggregates_ok (entries_of sample_dir) sample_tree"
  using aggregation_invariant [OF sample_wf sample_run] sample_wf sample_run by simp

theorem pruning_invariant_witness:
  "no_empty_dir sample_tree \<and>
   analyze_directory sample_env (Dir [(''b.bin'', File True [0x00, 0x01])]) ''/proj'' [''*.bin'']
     ''/proj'' False None 0 None False = Inr None"
proof -
  have all_ignored: "\<forall>(item, ent) \<in> set [(''b.bin'', File True [0x00, 0x01 :: byte])].
      should_ignore sample_env (join ''/proj'' item) ''/proj'' [''*.bin''] = Inr True"
    by code_simp
  from pruning_invariant [of sample_env sample_dir "''/proj''" "[''*.bin'']" "''/proj''" False None 0
      None False sample_tree "[(''b.bin'', File True [0x00, 0x01])]"]
    sample_run all_ignored
  show ?thesis by blast
qed

theorem binary_only_absent_witness:
  "''/proj'' \<noteq> [] \<and>
   passing_files sample_env binary_dir ''/proj'' [] ''/proj'' None = [] \<and>
   analyze_directory sample_env binary_dir ''/proj'' [] ''/proj'' False None 0 None False = Inr None"
proof -
  have ne: "''/proj'' \<noteq> []"
    by simp
  have none: "passing_files sample_env binary_dir ''/proj'' [] ''/proj'' None = []"
    by code_simp
  from binary_only_absent [OF ne none] ne none show ?thesis
    by simp
qed

theorem ignore_idempotence_witness:
  "set [''*.log'', ''*.bin''] = insert ''*.log'' (set [''*.bin'']) \<and>
   list_all (\<lambda>q. should_ignore sample_env q ''/proj'' [''*.log''] \<noteq> Inr True)
     (checked_paths sample_env sample_dir ''/proj'' [''*.bin''] ''/proj'' False None 0) \<and>
   analyze_directory sample_env sample_dir ''/proj'' [''*.log'', ''*.bin''] ''/proj'' False None 0
     None False = Inr (Some sample_tree)"
proof -
  have more: "set [''*.log'', ''*.bin''] = insert ''*.log'' (set [''*.bin''])"
    by simp
  have unmatched:
    "\<forall>q \<in> set (checked_paths sample_env sample_dir ''/proj'' [''*.bin''] ''/proj'' False None 0).
       should_ignore sample_env q ''/proj'' [''*.log''] \<noteq> Inr True"
    by code_simp
  have "analyze_directory sample_env sample_dir ''/proj'' [''*.log'', ''*.bin''] ''/proj'' False
      None 0 None False = Inr (Some sample_tree)"
    using ignore_idempotence [OF more unmatched, of None False] sample_run by simp
  with more unmatched show ?thesis
    unfolding list_all_iff by blast
qed

text \<open>
  C3. The scenario: \<^verbatim>\<open>a.py\<close> with 100 bytes of text, the binary \<^verbatim>\<open>b.bin\<close> and the
  ignore pattern \<^verbatim>\<open>*.bin\<close>. The root counts one file, and \<^verbatim>\<open>b.bin\<close> is not among its
  children: line 162 leaves the loop body for an ignored entry before a child is built.
\<close>

theorem ignored_file_not_listed:
  "analyze_directory sample_env
     (Dir [(''a.py'', File True (replicate 100 0x61)), (''b.bin'', File True [0x00, 0x01, 0x02])])
     ''/proj'' [''*.bin''] ''/proj'' False None 0 None False =
   Inr (Some (DirNode ''proj'' 100
     [FileNode ''a.py'' 100 100 (replicate 100 CHR ''a'') False] 100 1 0 100 100 None))"
  by code_simp

theorem ignored_file_not_listed_witness:
  "\<exists>t. analyze_directory sample_env
         (Dir [(''a.py'', File True (replicate 100 0x61)),
               (''b.bin'', File True [0x00, 0x01, 0x02])])
         ''/proj'' [''*.bin''] ''/proj'' False None 0 None False = Inr (Some t) \<and>
       file_count t = 1 \<and> map name (children t) = [''a.py'']"
  by (rule exI, rule conjI, rule ignored_file_not_listed) simp

text \<open>
  C8. A root with the text file \<^verbatim>\<open>b.txt\<close> of 3 bytes and the text file
  \<^verbatim>\<open>sub/a.txt\<close> of 5 bytes: the root reports \<^verbatim>\<open>total_text_size\<close> 3, the 5 bytes stay
  in the node of \<^verbatim>\<open>sub\<close>.
\<close>

theorem total_text_size_of_root:
  "analyze_directory sample_env
     (Dir [(''b.txt'', File True (bytes_of ''abc'')),
           (''sub'', Subdir (Dir [(''a.txt'', File True (bytes_of ''hello''))]))])
     ''/proj'' [] ''/proj'' False None 0 None False =
   Inr (Some (DirNode ''proj'' 8
     [FileNode ''b.txt'' 3 3 ''abc'' False,
      DirNode ''sub'' 5 [FileNode ''a.txt'' 5 5 ''hello'' False] 5 1 0 5 5 (Some False)]
     8 2 1 8 3 None))"
  by code_simp

theorem total_text_size_of_root_witness:
  "\<exists>t. analyze_directory sample_env
         (Dir [(''b.txt'', File True (bytes_of ''abc'')),
               (''sub'', Subdir (Dir [(''a.txt'', File True (bytes_of ''hello''))]))])
         ''/proj'' [] ''/proj'' False None 0 None False = Inr (Some t) \<and>
       total_text_size t = 3 \<and> total_text_size (last (children t)) = 5"
  by (rule exI, rule conjI, rule total_text_size_of_root) simp

theorem content_filter_and_gate_witness:
  "distinct (map fst [(''a.py'', File True (bytes_of ''foo bar''))]) \<and>
   is_text_file (File True (bytes_of ''foo bar'')) \<and>
   analyze_directory sample_env filter_dir ''/proj'' [] ''/proj'' False None 0
     (Some [''foo'', ''bar'']) False =
     Inr (Some (DirNode ''proj'' 7 [FileNode ''a.py'' 7 7 ''foo bar'' False] 7 1 0 7 7 None)) \<and>
   (\<exists>u v. read_text sample_env (bytes_of ''foo bar'') = u @ ''foo'' @ v) \<and>
   (\<exists>u v. read_text sample_env (bytes_of ''foo bar'') = u @ ''bar'' @ v) \<and>
   analyze_directory sample_env filter_dir ''/proj'' [] ''/proj'' False None 0
     (Some [''foo'', ''baz'']) False = Inr None \<and>
   (\<exists>t. analyze_directory sample_env filter_dir ''/proj'' [] ''/proj'' False None 0 None False =
          Inr (Some t) \<and>
        FileNode ''a.py'' (length (bytes_of ''foo bar''))
          (count_tokens sample_env (read_text sample_env (bytes_of ''foo bar'')))
          (read_text sample_env (bytes_of ''foo bar'')) False \<in> set (children t))"
proof -
  let ?items = "[(''a.py'', File True (bytes_of ''foo bar''))]"
  let ?t = "DirNode ''proj'' 7 [FileNode ''a.py'' 7 7 ''foo bar'' False] 7 1 0 7 7 None"
  have names: "distinct (map fst ?items)"
    by simp
  have mem: "(''a.py'', File True (bytes_of ''foo bar'')) \<in> set ?items"
    by simp
  have is_text: "is_text_file (File True (bytes_of ''foo bar''))"
    by code_simp
  have run: "analyze_directory sample_env (Dir ?items) ''/proj'' [] ''/proj'' False None 0
      (Some [''foo'', ''bar'']) False = Inr (Some ?t)"
    by code_simp
  have fails: "analyze_directory sample_env filter_dir ''/proj'' [] ''/proj'' False None 0
      (Some [''foo'', ''baz'']) False = Inr None"
    by code_simp
  have kept: "should_ignore sample_env (join ''/proj'' ''a.py'') ''/proj'' [] = Inr False"
    by code_simp
  note gate = content_filter_and_gate [OF names mem is_text, of _ sample_env "''/proj''" "[]"
      "''/proj''" False None 0 False]
  have occurs: "\<exists>u v. read_text sample_env (bytes_of ''foo bar'') = u @ pattern @ v"
    if "pattern \<in> set [''foo'', ''bar'']" for pattern
    using gate [of "Some [''foo'', ''bar'']", THEN conjunct1, rule_format, OF _ run,
        of "FileNode ''a.py'' 7 7 ''foo bar'' False" pattern] that
    by simp
  have "(\<exists>u v. read_text sample_env (bytes_of ''foo bar'') = u @ ''foo'' @ v) \<and>
      (\<exists>u v. read_text sample_env (bytes_of ''foo bar'') = u @ ''bar'' @ v)"
    by (intro conjI occurs) simp_all
  moreover
  have "\<exists>t. analyze_directory sample_env (Dir ?items) ''/proj'' [] ''/proj'' False None 0 None False =
          Inr (Some t) \<and>
        FileNode ''a.py'' (length (bytes_of ''foo bar''))
          (count_tokens sample_env (read_text sample_env (bytes_of ''foo bar'')))
          (read_text sample_env (bytes_of ''foo bar'')) False \<in> set (children t)"
    using gate [of None, THEN conjunct2, rule_format, OF _ _ _ _ kept]
    by simp
  ultimately show ?thesis
    using names is_text run fails by (simp add: filter_dir_def)
qed

theorem definition_extraction_witness:
  "extract_classes_and_functions sample_env sample_source [''qux'', ''foo''] =
     ''class A:'' @ [CHR 0x0A] @ ''    foo = 1'' @ [CHR 0x0A, CHR 0x0A] @
     ''def g():'' @ [CHR 0x0A] @ ''    return qux'' @ [CHR 0x0A, CHR 0x0A] \<and>
   extract_classes_and_functions sample_env (read_text sample_env (bytes_of sample_source))
     [spanning_pattern] = [] \<and>
   analyze_directory sample_env extract_dir ''/proj'' [] ''/proj'' False None 0
     (Some [spanning_pattern]) True = Inr (Some extract_tree) \<and>
   list_all (\<lambda>c. \<not> (is_FileNode c \<and> name c = ''m.py'')) (children extract_tree)"
proof -
  let ?items = "[(''m.py'', File True (bytes_of sample_source)),
      (''n.py'', File True (bytes_of second_source))]"
  have names: "distinct (map fst ?items)"
    by simp
  have mem: "(''m.py'', File True (bytes_of sample_source)) \<in> set ?items"
    by simp
  have is_text: "is_text_file (File True (bytes_of sample_source))"
    by code_simp
  have fp: "truthy (Some [spanning_pattern])"
    by simp
  have empty: "extract_classes_and_functions sample_env
      (read_text sample_env (bytes_of sample_source)) (the (Some [spanning_pattern])) = []"
    by code_simp
  have run: "analyze_directory sample_env (Dir ?items) ''/proj'' [] ''/proj'' False None 0
      (Some [spanning_pattern]) True = Inr (Some extract_tree)"
    by code_simp
  have blocks: "extract_classes_and_functions sample_env sample_source [''qux'', ''foo''] =
     ''class A:'' @ [CHR 0x0A] @ ''    foo = 1'' @ [CHR 0x0A, CHR 0x0A] @
     ''def g():'' @ [CHR 0x0A] @ ''    return qux'' @ [CHR 0x0A, CHR 0x0A]"
    by code_simp
  have "\<not> (is_FileNode c \<and> name c = ''m.py'')" if "c \<in> set (children extract_tree)" for c
    using definition_extraction [of sample_env sample_source "[''qux'', ''foo'']" ?items "''m.py''"
        True "bytes_of sample_source" "Some [spanning_pattern]" "''/proj''" "[]" "''/proj''" False
        None 0, THEN conjunct2, rule_format, OF names mem is_text fp empty run that]
    by blast
  then have "list_all (\<lambda>c. \<not> (is_FileNode c \<and> name c = ''m.py'')) (children extract_tree)"
    unfolding list_all_iff by blast
  with blocks empty run show ?thesis
    by (simp add: extract_dir_def)
qed

end
